theory Spec2Isabelle
  imports Main
begin

section \<open>Data model\<close>

text \<open>
  The API keeps three process-wide arrays: \<^verbatim>\<open>users\<close> (models/user.model),
  \<^verbatim>\<open>posts\<close> (models/post.model) and \<^verbatim>\<open>follows\<close> (models/follows.models).
  JavaScript strings are modelled as \<open>string\<close>, one \<open>char\<close> per code unit;
  dates are milliseconds since the epoch.
\<close>

type_synonym timestamp = nat

text \<open>
  The user objects of models/user.model carry no \<^verbatim>\<open>isDeleted\<close> property; the
  controllers nevertheless read \<^verbatim>\<open>u.isDeleted\<close>. An absent property reads as
  \<^verbatim>\<open>undefined\<close>, which is falsy, so it is \<open>False\<close> here.
\<close>

record user =
  u_id :: string
  u_name :: string
  u_email :: string
  u_role :: string
  u_isDeleted :: bool

record post =
  p_id :: string
  p_author :: string
  p_content :: string
  p_created :: timestamp
  p_isDeleted :: bool
  p_updatedAt :: timestamp

text \<open>A follow edge has no \<^verbatim>\<open>updatedAt\<close> until it is unfollowed.\<close>

record follow =
  f_id :: string
  f_follower :: string
  f_following :: string
  f_created :: timestamp
  f_isDeleted :: bool
  f_updatedAt :: "timestamp option"

record store =
  users :: "user list"
  posts :: "post list"
  follows :: "follow list"

text \<open>\<^verbatim>\<open>req.user\<close>, attached by the authorization middleware.\<close>

record principal =
  pr_id :: string
  pr_role :: string
  pr_name :: string

text \<open>The decoded token payload; only the fields the middleware reads.\<close>

record claims =
  c_id :: string
  c_role :: string
  c_name :: string

section \<open>Responses\<close>

text \<open>
  Every non-2xx JSON response of the API, named by its \<^verbatim>\<open>code\<close> property.
  \<open>INSUFFICIENT_PERMISSIONS\<close> carries \<^verbatim>\<open>requiredRoles\<close> and \<^verbatim>\<open>userRole\<close>;
  the two authentication failures carry their \<^verbatim>\<open>message\<close>.
\<close>

datatype failure =
    VALIDATION_ERROR
  | AUTH_HEADER_ERROR string
  | TOKEN_VERIFICATION_ERROR string
  | INSUFFICIENT_PERMISSIONS "string list" string
  | AUTH_INTERNAL_ERROR
  | POST_NOT_FOUND
  | DELETE_PERMISSION_DENIED
  | INVALID_PAGINATION
  | SELF_FOLLOW_ERROR
  | SELF_UNFOLLOW_ERROR
  | USER_NOT_FOUND
  | ALREADY_FOLLOWING
  | NOT_FOLLOWING
  | GET_FOLLOWERS_INTERNAL_ERROR
  | GET_FOLLOWING_INTERNAL_ERROR

fun statusCode :: "failure \<Rightarrow> nat" where
  "statusCode VALIDATION_ERROR = 400"
| "statusCode (AUTH_HEADER_ERROR m) = 401"
| "statusCode (TOKEN_VERIFICATION_ERROR m) = 401"
| "statusCode (INSUFFICIENT_PERMISSIONS rs r) = 403"
| "statusCode AUTH_INTERNAL_ERROR = 500"
| "statusCode POST_NOT_FOUND = 404"
| "statusCode DELETE_PERMISSION_DENIED = 403"
| "statusCode INVALID_PAGINATION = 400"
| "statusCode SELF_FOLLOW_ERROR = 400"
| "statusCode SELF_UNFOLLOW_ERROR = 400"
| "statusCode USER_NOT_FOUND = 404"
| "statusCode ALREADY_FOLLOWING = 400"
| "statusCode NOT_FOLLOWING = 400"
| "statusCode GET_FOLLOWERS_INTERNAL_ERROR = 500"
| "statusCode GET_FOLLOWING_INTERNAL_ERROR = 500"

section \<open>JavaScript helpers\<close>

text \<open>\<^verbatim>\<open>Array.prototype.findIndex\<close>; \<open>None\<close> stands for \<^verbatim>\<open>-1\<close>.\<close>

fun findIndex :: "('a \<Rightarrow> bool) \<Rightarrow> 'a list \<Rightarrow> nat option" where
  "findIndex P [] = None"
| "findIndex P (x # xs) =
     (if P x then Some 0 else map_option Suc (findIndex P xs))"

text \<open>\<^verbatim>\<open>String.prototype.split\<close> with a one-character separator.\<close>

fun split :: "char \<Rightarrow> string \<Rightarrow> string list" where
  "split c [] = [[]]"
| "split c (x # xs) =
     (if x = c then [] # split c xs
      else (case split c xs of
              [] \<Rightarrow> [[x]]
            | w # ws \<Rightarrow> (x # w) # ws))"

text \<open>
  \<^verbatim>\<open>String.prototype.trim\<close>: strips white space and line terminators from both
  ends. Of the code units it strips, TAB, LF, VT, FF, CR, SP and NBSP are in the range
  of \<open>char\<close>.
\<close>

definition isWhiteSpace :: "char \<Rightarrow> bool" where
  "isWhiteSpace c \<longleftrightarrow> c \<in> set [CHR 0x09, CHR 0x0A, CHR 0x0B, CHR 0x0C, CHR 0x0D, CHR 0x20, CHR 0xA0]"

definition trim :: "string \<Rightarrow> string" where
  "trim s = rev (dropWhile isWhiteSpace (rev (dropWhile isWhiteSpace s)))"

text \<open>Decimal rendering of a non-negative integer, as a template literal does.\<close>

fun digits :: "nat \<Rightarrow> string" where
  "digits n =
     (if n < 10 then [''0123456789'' ! n]
      else digits (n div 10) @ [''0123456789'' ! (n mod 10)])"

declare digits.simps [simp del]

section \<open>Token handling (middleware/jwt)\<close>

text \<open>
  \<^verbatim>\<open>jwt.verify\<close> belongs to the jsonwebtoken library. It is a parameter of the
  model: a function from the token string to the decoded payload or to the name of the
  error the library throws.
\<close>

datatype jwt_error = TokenExpiredError | JsonWebTokenError | NotBeforeError

type_synonym jwt_verify = "string \<Rightarrow> jwt_error + claims"

definition verifyToken :: "jwt_verify \<Rightarrow> string \<Rightarrow> string + claims" where
  "verifyToken jwt token =
     (case jwt token of
        Inr decoded \<Rightarrow> Inr decoded
      | Inl TokenExpiredError \<Rightarrow> Inl ''Token expired''
      | Inl JsonWebTokenError \<Rightarrow> Inl ''Invalid token''
      | Inl NotBeforeError \<Rightarrow> Inl ''Token verification failed'')"

text \<open>
  The header is \<open>None\<close> when the request has no Authorization header. An empty
  string is falsy too.
\<close>

definition extractTokenFromHeader :: "string option \<Rightarrow> string + string" where
  "extractTokenFromHeader authHeader =
     (case authHeader of
        None \<Rightarrow> Inl ''Authorization header missing''
      | Some h \<Rightarrow>
          if h = [] then Inl ''Authorization header missing''
          else (let parts = split CHR '' '' h in
                if length parts \<noteq> 2 \<or> parts ! 0 \<noteq> ''Bearer''
                then Inl ''Invalid authorization header format''
                else Inr (parts ! 1)))"

section \<open>Authorization middleware (middleware/authorize)\<close>

text \<open>
  After the role check the middleware echoes the id and the role of the token with
  \<^verbatim>\<open>res.set('X-User-ID', decoded.id)\<close> and \<^verbatim>\<open>res.set('X-User-Role', decoded.role)\<close>.
  Node's \<^verbatim>\<open>setHeader\<close> throws on a value with a character outside TAB,
  \<^verbatim>\<open>0x20-0x7e\<close> and \<^verbatim>\<open>0x80-0xff\<close>; every code unit above \<^verbatim>\<open>0xff\<close>, which
  \<open>char\<close> does not hold, is refused too.
\<close>

definition validHeaderChar :: "char \<Rightarrow> bool" where
  "validHeaderChar c \<longleftrightarrow>
     (let n = (of_char c :: nat) in n = 9 \<or> (32 \<le> n \<and> n \<le> 126) \<or> 128 \<le> n)"

definition validHeaderValue :: "string \<Rightarrow> bool" where
  "validHeaderValue v \<longleftrightarrow> list_all validHeaderChar v"

text \<open>
  \<open>Inl\<close> is the response the middleware sends itself; \<open>Inr\<close> is the principal it
  attaches to the request before calling \<^verbatim>\<open>next()\<close>. An exception of
  \<^verbatim>\<open>res.set\<close> is caught by the outer \<^verbatim>\<open>catch\<close>, which answers 500
  \<open>AUTH_INTERNAL_ERROR\<close> and does not call \<^verbatim>\<open>next()\<close>.
\<close>

definition authorize :: "string list \<Rightarrow> jwt_verify \<Rightarrow> string option \<Rightarrow> failure + principal" where
  "authorize roles jwt authHeader =
     (case extractTokenFromHeader authHeader of
        Inl msg \<Rightarrow> Inl (AUTH_HEADER_ERROR msg)
      | Inr token \<Rightarrow>
          (case verifyToken jwt token of
             Inl msg \<Rightarrow> Inl (TOKEN_VERIFICATION_ERROR msg)
           | Inr decoded \<Rightarrow>
               if length roles > 0 \<and> c_role decoded \<notin> set roles
               then Inl (INSUFFICIENT_PERMISSIONS roles (c_role decoded))
               else if \<not> validHeaderValue (c_id decoded) then Inl AUTH_INTERNAL_ERROR
               else if \<not> validHeaderValue (c_role decoded) then Inl AUTH_INTERNAL_ERROR
               else Inr \<lparr>pr_id = c_id decoded, pr_role = c_role decoded,
                         pr_name = c_name decoded\<rparr>))"

definition requireAdmin :: "jwt_verify \<Rightarrow> string option \<Rightarrow> failure + principal" where
  "requireAdmin = authorize [''admin'']"

definition requireUserOrAdmin :: "jwt_verify \<Rightarrow> string option \<Rightarrow> failure + principal" where
  "requireUserOrAdmin = authorize [''user'', ''admin'']"

definition requireAuth :: "jwt_verify \<Rightarrow> string option \<Rightarrow> failure + principal" where
  "requireAuth = authorize [''user'', ''admin'']"

section \<open>Numbers from the query string\<close>

definition isDigit :: "char \<Rightarrow> bool" where
  "isDigit c \<longleftrightarrow> 48 \<le> (of_char c :: nat) \<and> (of_char c :: nat) \<le> 57"

definition hexValue :: "char \<Rightarrow> nat option" where
  "hexValue c =
     (let n = (of_char c :: nat) in
      if 48 \<le> n \<and> n \<le> 57 then Some (n - 48)
      else if 65 \<le> n \<and> n \<le> 70 then Some (n - 55)
      else if 97 \<le> n \<and> n \<le> 102 then Some (n - 87)
      else None)"

definition radixValue :: "nat \<Rightarrow> string \<Rightarrow> nat" where
  "radixValue r ds = foldl (\<lambda>acc c. acc * r + the (hexValue c)) 0 ds"

text \<open>
  \<^verbatim>\<open>parseInt(s)\<close> without a radix: leading white space is skipped, a sign is read,
  a \<^verbatim>\<open>0x\<close> prefix selects radix 16, and the longest prefix of digits is the value.
  \<open>None\<close> is \<^verbatim>\<open>NaN\<close>, the result when there is no digit. The sign of zero is not
  represented.
\<close>

definition parseInt :: "string \<Rightarrow> int option" where
  "parseInt s =
     (let s1 = dropWhile isWhiteSpace s;
          neg = (s1 \<noteq> [] \<and> hd s1 = CHR ''-'');
          s2 = (if s1 \<noteq> [] \<and> (hd s1 = CHR ''-'' \<or> hd s1 = CHR ''+'') then tl s1 else s1);
          hex = (take 2 s2 = ''0x'' \<or> take 2 s2 = ''0X'');
          s3 = (if hex then drop 2 s2 else s2);
          z = (if hex then takeWhile (\<lambda>c. hexValue c \<noteq> None) s3 else takeWhile isDigit s3);
          v = int (radixValue (if hex then 16 else 10) z)
      in if z = [] then None else Some (if neg then - v else v))"

text \<open>A query parameter with its destructuring default.\<close>

definition queryInt :: "int \<Rightarrow> string option \<Rightarrow> int option" where
  "queryInt dflt v = (case v of None \<Rightarrow> Some dflt | Some s \<Rightarrow> parseInt s)"

text \<open>\<^verbatim>\<open>Math.min(x, 50)\<close>, which is \<^verbatim>\<open>NaN\<close> for \<^verbatim>\<open>NaN\<close>.\<close>

definition min50 :: "int option \<Rightarrow> int option" where
  "min50 x = map_option (\<lambda>n. min n 50) x"

text \<open>\<^verbatim>\<open>x < 1\<close> and \<^verbatim>\<open>x > 1\<close>: every comparison with \<^verbatim>\<open>NaN\<close> is false.\<close>

fun lessThanOne :: "int option \<Rightarrow> bool" where
  "lessThanOne (Some n) = (n < 1)"
| "lessThanOne None = False"

fun greaterThanOne :: "int option \<Rightarrow> bool" where
  "greaterThanOne (Some n) = (n > 1)"
| "greaterThanOne None = False"

text \<open>
  \<^verbatim>\<open>Math.ceil(n / limitNum)\<close> for an array length \<open>n\<close>: a division by zero
  gives \<^verbatim>\<open>Infinity\<close>, or \<^verbatim>\<open>NaN\<close> for \<^verbatim>\<open>0 / 0\<close>.
\<close>

datatype jsnum = NaN | Infinity | Num int

fun ceilDiv :: "nat \<Rightarrow> int option \<Rightarrow> jsnum" where
  "ceilDiv n None = NaN"
| "ceilDiv n (Some l) =
     (if l = 0 then (if n = 0 then NaN else Infinity)
      else Num (- ((- int n) div l)))"

fun jsLess :: "int option \<Rightarrow> jsnum \<Rightarrow> bool" where
  "jsLess (Some a) (Num b) = (a < b)"
| "jsLess (Some a) Infinity = True"
| "jsLess _ _ = False"

text \<open>
  \<^verbatim>\<open>xs.slice(skip, skip + limitNum)\<close> with \<^verbatim>\<open>skip = (pageNum - 1) * limitNum\<close>.
  A negative bound counts from the end of the array; when either number is
  \<^verbatim>\<open>NaN\<close> both bounds are \<^verbatim>\<open>NaN\<close>, which \<^verbatim>\<open>slice\<close> reads as 0.
\<close>

definition sliceBound :: "nat \<Rightarrow> int \<Rightarrow> nat" where
  "sliceBound len k = (if k < 0 then nat (max (int len + k) 0) else min (nat k) len)"

fun pageSlice :: "int option \<Rightarrow> int option \<Rightarrow> 'a list \<Rightarrow> 'a list" where
  "pageSlice (Some pageNum) (Some limitNum) xs =
     (let skip = (pageNum - 1) * limitNum;
          start = sliceBound (length xs) skip;
          stop = sliceBound (length xs) (skip + limitNum)
      in take (stop - start) (drop start xs))"
| "pageSlice _ _ xs = []"

section \<open>Request validation (middleware/validator, validators)\<close>

text \<open>
  \<^verbatim>\<open>validate(schema)\<close> answers 400 \<open>VALIDATION_ERROR\<close> when the Joi schema rejects
  the request. Each schema is the predicate of the requests it accepts.
\<close>

text \<open>\<open>postIdSchema\<close>: a required string matching \<^verbatim>\<open>/^[a-zA-Z0-9_-]+$/\<close>.\<close>

definition idChar :: "char \<Rightarrow> bool" where
  "idChar c \<longleftrightarrow>
     (let n = (of_char c :: nat) in
      (97 \<le> n \<and> n \<le> 122) \<or> (65 \<le> n \<and> n \<le> 90) \<or> (48 \<le> n \<and> n \<le> 57)
      \<or> c = CHR ''_'' \<or> c = CHR ''-'')"

definition postIdSchema :: "string \<Rightarrow> bool" where
  "postIdSchema ident \<longleftrightarrow> ident \<noteq> [] \<and> list_all idChar ident"

text \<open>
  \<open>createPostSchema\<close>: \<^verbatim>\<open>content\<close> is a required string of 1 to 1000 characters.
  The schema has no \<^verbatim>\<open>trim()\<close> rule, so the length is that of the string as sent.
  \<open>None\<close> is a body without \<^verbatim>\<open>content\<close>.
\<close>

definition createPostSchema :: "string option \<Rightarrow> bool" where
  "createPostSchema content \<longleftrightarrow>
     (case content of None \<Rightarrow> False | Some c \<Rightarrow> 1 \<le> length c \<and> length c \<le> 1000)"

text \<open>\<open>userIdSchema\<close> of validators/user.validators: a required, non-empty string.\<close>

definition userIdSchema :: "string \<Rightarrow> bool" where
  "userIdSchema userId \<longleftrightarrow> userId \<noteq> []"

section \<open>Posts controller (controllers/posts.controller)\<close>

record deleted_post =
  dp_id :: string
  dp_author :: string
  dp_content :: string
  dp_created :: timestamp
  dp_deletedAt :: timestamp

text \<open>
  \<open>deletePost\<close>. The \<^verbatim>\<open>validationResult(req)\<close> it reads first is empty: no
  express-validator chain runs on this route. \<open>now\<close> is the \<^verbatim>\<open>new Date()\<close> of
  the soft delete.
\<close>

definition deletePost :: "timestamp \<Rightarrow> string \<Rightarrow> principal \<Rightarrow> post list
    \<Rightarrow> (failure + deleted_post) \<times> post list" where
  "deletePost now ident user ps =
     (case findIndex (\<lambda>post. p_id post = ident \<and> \<not> p_isDeleted post) ps of
        None \<Rightarrow> (Inl POST_NOT_FOUND, ps)
      | Some postIndex \<Rightarrow>
          (let post = ps ! postIndex in
           if pr_role user \<noteq> ''admin'' \<and> p_author post \<noteq> pr_id user
           then (Inl DELETE_PERMISSION_DENIED, ps)
           else (Inr \<lparr>dp_id = p_id post, dp_author = p_author post,
                       dp_content = p_content post, dp_created = p_created post,
                       dp_deletedAt = now\<rparr>,
                 ps[postIndex := post\<lparr>p_isDeleted := True, p_updatedAt := now\<rparr>])))"

record posts_query =
  q_page :: "string option"
  q_limit :: "string option"
  q_author :: "string option"
  q_sortOrder :: "string option"

record post_view =
  pv_id :: string
  pv_author :: string
  pv_content :: string
  pv_created :: timestamp

record posts_pagination =
  currentPage :: "int option"
  totalPages :: jsnum
  totalPosts :: nat
  postsPerPage :: "int option"
  hasNextPage :: bool
  hasPrevPage :: bool

record posts_page =
  pp_posts :: "post_view list"
  pp_pagination :: posts_pagination

definition viewPost :: "post \<Rightarrow> post_view" where
  "viewPost post = \<lparr>pv_id = p_id post, pv_author = p_author post,
                     pv_content = p_content post, pv_created = p_created post\<rparr>"

text \<open>
  \<open>getAllPosts\<close>. \<^verbatim>\<open>Array.prototype.sort\<close> is stable, and so is \<open>sort_key\<close>; the
  comparator orders by \<^verbatim>\<open>created\<close>, reversed when \<^verbatim>\<open>sortOrder\<close> is \<^verbatim>\<open>'desc'\<close>,
  its default.
\<close>

definition getAllPosts :: "posts_query \<Rightarrow> post list \<Rightarrow> failure + posts_page" where
  "getAllPosts q ps =
     (let pageNum = queryInt 1 (q_page q);
          limitNum = min50 (queryInt 10 (q_limit q))
      in if lessThanOne pageNum \<or> lessThanOne limitNum then Inl INVALID_PAGINATION
         else
          (let filteredPosts = filter (\<lambda>post. \<not> p_isDeleted post) ps;
               filteredPosts =
                 (case q_author q of
                    None \<Rightarrow> filteredPosts
                  | Some author \<Rightarrow>
                      if author = [] then filteredPosts
                      else filter (\<lambda>post. p_author post = author) filteredPosts);
               desc = (case q_sortOrder q of None \<Rightarrow> True | Some so \<Rightarrow> so = ''desc'');
               sortedPosts =
                 (if desc then sort_key (\<lambda>post. - int (p_created post)) filteredPosts
                  else sort_key (\<lambda>post. int (p_created post)) filteredPosts);
               totalPosts = length sortedPosts;
               totalPages = ceilDiv totalPosts limitNum;
               paginatedPosts = pageSlice pageNum limitNum sortedPosts
           in Inr \<lparr>pp_posts = map viewPost paginatedPosts,
                    pp_pagination =
                      \<lparr>currentPage = pageNum, totalPages = totalPages,
                       totalPosts = totalPosts, postsPerPage = limitNum,
                       hasNextPage = jsLess pageNum totalPages,
                       hasPrevPage = greaterThanOne pageNum\<rparr>\<rparr>))"

definition getPostById :: "string \<Rightarrow> post list \<Rightarrow> failure + post" where
  "getPostById ident ps =
     (case find (\<lambda>post. p_id post = ident \<and> \<not> p_isDeleted post) ps of
        None \<Rightarrow> Inl POST_NOT_FOUND
      | Some post \<Rightarrow> Inr post)"

text \<open>
  \<open>createPost\<close> reads the clock three times: \<^verbatim>\<open>Date.now()\<close> for the id, then
  \<^verbatim>\<open>new Date()\<close> for \<^verbatim>\<open>created\<close> and for \<^verbatim>\<open>updatedAt\<close>.
\<close>

definition createPost :: "timestamp \<Rightarrow> timestamp \<Rightarrow> timestamp \<Rightarrow> string \<Rightarrow> principal
    \<Rightarrow> post list \<Rightarrow> post_view \<times> post list" where
  "createPost tId tCreated tUpdated content user ps =
     (let newPost = \<lparr>p_id = ''p'' @ digits tId, p_author = pr_id user,
                      p_content = trim content, p_created = tCreated,
                      p_isDeleted = False, p_updatedAt = tUpdated\<rparr>
      in (viewPost newPost, ps @ [newPost]))"

section \<open>Follows controller (controllers/follows.controller)\<close>

definition activeUser :: "string \<Rightarrow> user \<Rightarrow> bool" where
  "activeUser userId u \<longleftrightarrow> u_id u = userId \<and> \<not> u_isDeleted u"

definition activeEdge :: "string \<Rightarrow> string \<Rightarrow> follow \<Rightarrow> bool" where
  "activeEdge a b f \<longleftrightarrow> f_follower f = a \<and> f_following f = b \<and> \<not> f_isDeleted f"

record follow_view =
  fv_id :: string
  fv_follower :: string
  fv_following :: string
  fv_created :: timestamp

definition followUser :: "timestamp \<Rightarrow> string \<Rightarrow> principal \<Rightarrow> user list \<Rightarrow> follow list
    \<Rightarrow> (failure + follow_view) \<times> follow list" where
  "followUser now userId currentUser us fs =
     (if pr_id currentUser = userId then (Inl SELF_FOLLOW_ERROR, fs)
      else
        (case find (activeUser userId) us of
           None \<Rightarrow> (Inl USER_NOT_FOUND, fs)
         | Some targetUser \<Rightarrow>
             (case find (activeEdge (pr_id currentUser) userId) fs of
                Some existingFollow \<Rightarrow> (Inl ALREADY_FOLLOWING, fs)
              | None \<Rightarrow>
                  (let newFollow =
                         \<lparr>f_id = ''f'' @ digits (length fs + 1),
                          f_follower = pr_id currentUser, f_following = userId,
                          f_created = now, f_isDeleted = False, f_updatedAt = None\<rparr>
                   in (Inr \<lparr>fv_id = f_id newFollow, fv_follower = pr_id currentUser,
                              fv_following = userId, fv_created = f_created newFollow\<rparr>,
                       fs @ [newFollow])))))"

record unfollowed =
  uf_id :: string
  uf_follower :: string
  uf_following :: string

definition unfollowUser :: "timestamp \<Rightarrow> string \<Rightarrow> principal \<Rightarrow> user list \<Rightarrow> follow list
    \<Rightarrow> (failure + unfollowed) \<times> follow list" where
  "unfollowUser now userId currentUser us fs =
     (if pr_id currentUser = userId then (Inl SELF_UNFOLLOW_ERROR, fs)
      else
        (case find (activeUser userId) us of
           None \<Rightarrow> (Inl USER_NOT_FOUND, fs)
         | Some targetUser \<Rightarrow>
             (case findIndex (activeEdge (pr_id currentUser) userId) fs of
                None \<Rightarrow> (Inl NOT_FOLLOWING, fs)
              | Some existingFollowIndex \<Rightarrow>
                  (Inr \<lparr>uf_id = f_id (fs ! existingFollowIndex),
                         uf_follower = pr_id currentUser, uf_following = userId\<rparr>,
                   fs[existingFollowIndex :=
                        (fs ! existingFollowIndex)\<lparr>f_isDeleted := True,
                                                    f_updatedAt := Some now\<rparr>]))))"

record user_view =
  uv_id :: string
  uv_name :: string
  uv_email :: string
  uv_role :: string

definition viewUser :: "user \<Rightarrow> user_view" where
  "viewUser u = \<lparr>uv_id = u_id u, uv_name = u_name u, uv_email = u_email u,
                  uv_role = u_role u\<rparr>"

record edge_view =
  ev_id :: string
  ev_user :: user_view

text \<open>
  The \<^verbatim>\<open>map\<close> callback of \<open>getFollowers\<close> and \<open>getFollowing\<close>: it looks the
  counterpart account up with \<^verbatim>\<open>users.find\<close> and reads \<^verbatim>\<open>.id\<close>, \<^verbatim>\<open>.name\<close>,
  \<^verbatim>\<open>.email\<close> and \<^verbatim>\<open>.role\<close> of the result. When \<^verbatim>\<open>find\<close> returned
  \<^verbatim>\<open>undefined\<close> the read throws a TypeError, which is \<open>None\<close> here; \<open>side\<close> is
  \<^verbatim>\<open>follow.follower\<close> or \<^verbatim>\<open>follow.following\<close>.
\<close>

fun withDetails :: "(follow \<Rightarrow> string) \<Rightarrow> user list \<Rightarrow> follow list \<Rightarrow> edge_view list option" where
  "withDetails side us [] = Some []"
| "withDetails side us (f # fs) =
     (case find (activeUser (side f)) us of
        None \<Rightarrow> None
      | Some u \<Rightarrow>
          map_option ((#) \<lparr>ev_id = f_id f, ev_user = viewUser u\<rparr>) (withDetails side us fs))"

record edges_pagination =
  ep_page :: "int option"
  ep_limit :: "int option"
  ep_total :: nat
  ep_pages :: jsnum

record edges_page =
  eg_edges :: "edge_view list"
  eg_pagination :: edges_pagination

text \<open>
  The pagination that ends \<open>getFollowers\<close> and \<open>getFollowing\<close>. The
  \<^verbatim>\<open>.filter(f => f.follower)\<close> before it keeps every element: each one holds an
  object, which is truthy.
\<close>

definition paginateEdges :: "string option \<Rightarrow> string option \<Rightarrow> edge_view list \<Rightarrow> edges_page" where
  "paginateEdges page limit details =
     (let pageNum = queryInt 1 page;
          limitNum = min50 (queryInt 10 limit)
      in \<lparr>eg_edges = pageSlice pageNum limitNum details,
          eg_pagination = \<lparr>ep_page = pageNum, ep_limit = limitNum,
                            ep_total = length details,
                            ep_pages = ceilDiv (length details) limitNum\<rparr>\<rparr>)"

definition getFollowers :: "string \<Rightarrow> string option \<Rightarrow> string option \<Rightarrow> user list \<Rightarrow> follow list
    \<Rightarrow> failure + edges_page" where
  "getFollowers userId page limit us fs =
     (case find (activeUser userId) us of
        None \<Rightarrow> Inl USER_NOT_FOUND
      | Some targetUser \<Rightarrow>
          (let userFollowers = filter (\<lambda>f. f_following f = userId \<and> \<not> f_isDeleted f) fs
           in case withDetails f_follower us userFollowers of
                None \<Rightarrow> Inl GET_FOLLOWERS_INTERNAL_ERROR
              | Some followersWithDetails \<Rightarrow> Inr (paginateEdges page limit followersWithDetails)))"

definition getFollowing :: "string \<Rightarrow> string option \<Rightarrow> string option \<Rightarrow> user list \<Rightarrow> follow list
    \<Rightarrow> failure + edges_page" where
  "getFollowing userId page limit us fs =
     (case find (activeUser userId) us of
        None \<Rightarrow> Inl USER_NOT_FOUND
      | Some targetUser \<Rightarrow>
          (let userFollowing = filter (\<lambda>f. f_follower f = userId \<and> \<not> f_isDeleted f) fs
           in case withDetails f_following us userFollowing of
                None \<Rightarrow> Inl GET_FOLLOWING_INTERNAL_ERROR
              | Some followingWithDetails \<Rightarrow> Inr (paginateEdges page limit followingWithDetails)))"

record follow_status =
  fs_isFollowing :: bool
  fs_targetUser :: user_view

definition checkFollowStatus :: "string \<Rightarrow> principal \<Rightarrow> user list \<Rightarrow> follow list
    \<Rightarrow> failure + follow_status" where
  "checkFollowStatus userId currentUser us fs =
     (case find (activeUser userId) us of
        None \<Rightarrow> Inl USER_NOT_FOUND
      | Some targetUser \<Rightarrow>
          Inr \<lparr>fs_isFollowing = list_ex (activeEdge (pr_id currentUser) userId) fs,
                fs_targetUser = viewUser targetUser\<rparr>)"

record follow_stats =
  st_userId :: string
  st_followersCount :: nat
  st_followingCount :: nat
  st_user :: user_view

definition getFollowStats :: "string \<Rightarrow> user list \<Rightarrow> follow list \<Rightarrow> failure + follow_stats" where
  "getFollowStats userId us fs =
     (case find (activeUser userId) us of
        None \<Rightarrow> Inl USER_NOT_FOUND
      | Some targetUser \<Rightarrow>
          Inr \<lparr>st_userId = userId,
                st_followersCount =
                  length (filter (\<lambda>f. f_following f = userId \<and> \<not> f_isDeleted f) fs),
                st_followingCount =
                  length (filter (\<lambda>f. f_follower f = userId \<and> \<not> f_isDeleted f) fs),
                st_user = viewUser targetUser\<rparr>)"

section \<open>Feed aggregation (db/aggregation)\<close>

text \<open>
  \<open>getFollowingsPosts userId\<close> is a MongoDB pipeline, which \<open>executeAggregation\<close>
  runs on the \<^verbatim>\<open>follows\<close> collection of a database. The collections hold the
  documents of the README's schemas, of which the pipeline reads \<^verbatim>\<open>follower\<close> and
  \<^verbatim>\<open>following\<close> of a follow, \<^verbatim>\<open>_id\<close>, \<^verbatim>\<open>author\<close>, \<^verbatim>\<open>content\<close> and
  \<^verbatim>\<open>created\<close> of a post, and \<^verbatim>\<open>_id\<close> and \<^verbatim>\<open>name\<close> of a user. The schemas
  give follows and posts the flag \<^verbatim>\<open>isDeleted\<close>.
\<close>

record user_doc =
  ud_id :: string
  ud_name :: string

record follow_doc =
  fd_follower :: string
  fd_following :: string
  fd_isDeleted :: bool

record post_doc =
  pd_id :: string
  pd_author :: string
  pd_content :: string
  pd_created :: timestamp
  pd_isDeleted :: bool

record database =
  db_users :: "user_doc list"
  db_follows :: "follow_doc list"
  db_posts :: "post_doc list"

record feed_entry =
  fe_id :: string
  fe_content :: string
  fe_created :: timestamp
  fe_authorName :: string

text \<open>Each stage is a function on the list of documents that flows through the pipeline.\<close>

text \<open>\<^verbatim>\<open>{ $match: { follower: userId } }\<close>\<close>

definition stageMatch :: "string \<Rightarrow> follow_doc list \<Rightarrow> follow_doc list" where
  "stageMatch userId docs = filter (\<lambda>f. fd_follower f = userId) docs"

text \<open>\<^verbatim>\<open>$lookup\<close> from posts on \<^verbatim>\<open>following = author\<close>, then \<^verbatim>\<open>$unwind\<close>.\<close>

definition stageLookupPosts :: "post_doc list \<Rightarrow> follow_doc list \<Rightarrow> (follow_doc \<times> post_doc) list" where
  "stageLookupPosts ps docs =
     concat (map (\<lambda>f. map (Pair f) (filter (\<lambda>p. pd_author p = fd_following f) ps)) docs)"

text \<open>\<^verbatim>\<open>$lookup\<close> from users on \<^verbatim>\<open>posts.author = _id\<close>, then \<^verbatim>\<open>$unwind\<close>.\<close>

definition stageLookupAuthor :: "user_doc list \<Rightarrow> (follow_doc \<times> post_doc) list
    \<Rightarrow> (follow_doc \<times> post_doc \<times> user_doc) list" where
  "stageLookupAuthor us docs =
     concat (map (\<lambda>(f, p). map (\<lambda>u. (f, p, u)) (filter (\<lambda>u. ud_id u = pd_author p) us)) docs)"

text \<open>\<^verbatim>\<open>$project\<close>\<close>

definition stageProject :: "(follow_doc \<times> post_doc \<times> user_doc) list \<Rightarrow> feed_entry list" where
  "stageProject docs =
     map (\<lambda>(f, p, u). \<lparr>fe_id = pd_id p, fe_content = pd_content p,
                        fe_created = pd_created p, fe_authorName = ud_name u\<rparr>) docs"

text \<open>
  \<^verbatim>\<open>{ $sort: { created: -1 } }\<close>. The stage names one key, and MongoDB does not fix
  the order in which documents with equal keys come out. That order is the engine's and
  is a parameter here: among documents of equal \<open>created\<close> those of smaller \<open>tie\<close>
  come first.
\<close>

type_synonym tie_order = "feed_entry \<Rightarrow> int"

definition stageSort :: "tie_order \<Rightarrow> feed_entry list \<Rightarrow> feed_entry list" where
  "stageSort tie docs = sort_key (\<lambda>e. - int (fe_created e)) (sort_key tie docs)"

text \<open>\<^verbatim>\<open>{ $limit: 10 }\<close>\<close>

definition stageLimit :: "feed_entry list \<Rightarrow> feed_entry list" where
  "stageLimit docs = take 10 docs"

definition getFollowingsPosts :: "tie_order \<Rightarrow> string \<Rightarrow> database \<Rightarrow> follow_doc list
    \<Rightarrow> feed_entry list" where
  "getFollowingsPosts tie userId db docs =
     stageLimit (stageSort tie (stageProject (stageLookupAuthor (db_users db)
       (stageLookupPosts (db_posts db) (stageMatch userId docs)))))"

definition executeAggregation :: "tie_order \<Rightarrow> database \<Rightarrow> string \<Rightarrow> feed_entry list" where
  "executeAggregation tie db userId = getFollowingsPosts tie userId db (db_follows db)"


section \<open>Routes (routes/posts.routes, routes/follows.routes)\<close>

text \<open>
  A route runs its middleware in order; the first one that answers ends the request.
  \<open>followQuerySchema\<close> (validators/follow.validator) is not among the sources. It is a
  parameter: given the \<^verbatim>\<open>page\<close> and \<^verbatim>\<open>limit\<close> of the query it returns the
  validated values that replace them, or \<open>None\<close> when it rejects the query.
\<close>

record env =
  jwt :: jwt_verify
  followQuerySchema :: "string option \<times> string option \<Rightarrow> (string option \<times> string option) option"

datatype request =
    GET_posts posts_query
  | GET_posts_id string
  | POST_posts "string option" "string option" timestamp timestamp timestamp
  | DELETE_posts_id "string option" string timestamp
  | POST_follows "string option" string timestamp
  | DELETE_follows "string option" string timestamp
  | GET_followers "string option" string "string option" "string option"
  | GET_following "string option" string "string option" "string option"
  | GET_check "string option" string
  | GET_stats "string option" string

datatype reply =
    PostsPage posts_page
  | PostFound post
  | PostCreated post_view
  | PostDeleted deleted_post
  | Followed follow_view
  | Unfollowed unfollowed
  | EdgesPage edges_page
  | FollowStatus follow_status
  | FollowStats follow_stats

definition routeGetPost :: "string \<Rightarrow> store \<Rightarrow> failure + reply" where
  "routeGetPost ident s =
     (if \<not> postIdSchema ident then Inl VALIDATION_ERROR
      else map_sum id PostFound (getPostById ident (posts s)))"

definition routeCreatePost :: "env \<Rightarrow> string option \<Rightarrow> string option \<Rightarrow> timestamp \<Rightarrow> timestamp
    \<Rightarrow> timestamp \<Rightarrow> store \<Rightarrow> (failure + reply) \<times> store" where
  "routeCreatePost e authHeader content tId tCreated tUpdated s =
     (case requireUserOrAdmin (jwt e) authHeader of
        Inl err \<Rightarrow> (Inl err, s)
      | Inr user \<Rightarrow>
          if \<not> createPostSchema content then (Inl VALIDATION_ERROR, s)
          else (case createPost tId tCreated tUpdated (the content) user (posts s) of
                  (view, ps) \<Rightarrow> (Inr (PostCreated view), s\<lparr>posts := ps\<rparr>)))"

definition routeDeletePost :: "env \<Rightarrow> string option \<Rightarrow> string \<Rightarrow> timestamp \<Rightarrow> store
    \<Rightarrow> (failure + reply) \<times> store" where
  "routeDeletePost e authHeader ident now s =
     (case requireAdmin (jwt e) authHeader of
        Inl err \<Rightarrow> (Inl err, s)
      | Inr user \<Rightarrow>
          if \<not> postIdSchema ident then (Inl VALIDATION_ERROR, s)
          else (case deletePost now ident user (posts s) of
                  (r, ps) \<Rightarrow> (map_sum id PostDeleted r, s\<lparr>posts := ps\<rparr>)))"

definition routeFollow :: "env \<Rightarrow> string option \<Rightarrow> string \<Rightarrow> timestamp \<Rightarrow> store
    \<Rightarrow> (failure + reply) \<times> store" where
  "routeFollow e authHeader userId now s =
     (case requireAuth (jwt e) authHeader of
        Inl err \<Rightarrow> (Inl err, s)
      | Inr user \<Rightarrow>
          if \<not> userIdSchema userId then (Inl VALIDATION_ERROR, s)
          else (case followUser now userId user (users s) (follows s) of
                  (r, fs) \<Rightarrow> (map_sum id Followed r, s\<lparr>follows := fs\<rparr>)))"

definition routeUnfollow :: "env \<Rightarrow> string option \<Rightarrow> string \<Rightarrow> timestamp \<Rightarrow> store
    \<Rightarrow> (failure + reply) \<times> store" where
  "routeUnfollow e authHeader userId now s =
     (case requireAuth (jwt e) authHeader of
        Inl err \<Rightarrow> (Inl err, s)
      | Inr user \<Rightarrow>
          if \<not> userIdSchema userId then (Inl VALIDATION_ERROR, s)
          else (case unfollowUser now userId user (users s) (follows s) of
                  (r, fs) \<Rightarrow> (map_sum id Unfollowed r, s\<lparr>follows := fs\<rparr>)))"

definition routeFollowers :: "env \<Rightarrow> string option \<Rightarrow> string \<Rightarrow> string option \<Rightarrow> string option
    \<Rightarrow> store \<Rightarrow> failure + reply" where
  "routeFollowers e authHeader userId page limit s =
     (case requireAuth (jwt e) authHeader of
        Inl err \<Rightarrow> Inl err
      | Inr user \<Rightarrow>
          if \<not> userIdSchema userId then Inl VALIDATION_ERROR
          else (case followQuerySchema e (page, limit) of
                  None \<Rightarrow> Inl VALIDATION_ERROR
                | Some (page', limit') \<Rightarrow>
                    map_sum id EdgesPage (getFollowers userId page' limit' (users s) (follows s))))"

definition routeFollowing :: "env \<Rightarrow> string option \<Rightarrow> string \<Rightarrow> string option \<Rightarrow> string option
    \<Rightarrow> store \<Rightarrow> failure + reply" where
  "routeFollowing e authHeader userId page limit s =
     (case requireAuth (jwt e) authHeader of
        Inl err \<Rightarrow> Inl err
      | Inr user \<Rightarrow>
          if \<not> userIdSchema userId then Inl VALIDATION_ERROR
          else (case followQuerySchema e (page, limit) of
                  None \<Rightarrow> Inl VALIDATION_ERROR
                | Some (page', limit') \<Rightarrow>
                    map_sum id EdgesPage (getFollowing userId page' limit' (users s) (follows s))))"

definition routeCheck :: "env \<Rightarrow> string option \<Rightarrow> string \<Rightarrow> store \<Rightarrow> failure + reply" where
  "routeCheck e authHeader userId s =
     (case requireAuth (jwt e) authHeader of
        Inl err \<Rightarrow> Inl err
      | Inr user \<Rightarrow>
          if \<not> userIdSchema userId then Inl VALIDATION_ERROR
          else map_sum id FollowStatus (checkFollowStatus userId user (users s) (follows s)))"

definition routeStats :: "env \<Rightarrow> string option \<Rightarrow> string \<Rightarrow> store \<Rightarrow> failure + reply" where
  "routeStats e authHeader userId s =
     (case requireAuth (jwt e) authHeader of
        Inl err \<Rightarrow> Inl err
      | Inr user \<Rightarrow>
          if \<not> userIdSchema userId then Inl VALIDATION_ERROR
          else map_sum id FollowStats (getFollowStats userId (users s) (follows s)))"

text \<open>One request against the stores: the response and the stores afterwards.\<close>

fun handle :: "env \<Rightarrow> request \<Rightarrow> store \<Rightarrow> (failure + reply) \<times> store" where
  "handle e (GET_posts q) s = (map_sum id PostsPage (getAllPosts q (posts s)), s)"
| "handle e (GET_posts_id ident) s = (routeGetPost ident s, s)"
| "handle e (POST_posts h content tId tCreated tUpdated) s =
     routeCreatePost e h content tId tCreated tUpdated s"
| "handle e (DELETE_posts_id h ident now) s = routeDeletePost e h ident now s"
| "handle e (POST_follows h userId now) s = routeFollow e h userId now s"
| "handle e (DELETE_follows h userId now) s = routeUnfollow e h userId now s"
| "handle e (GET_followers h userId page limit) s = (routeFollowers e h userId page limit s, s)"
| "handle e (GET_following h userId page limit) s = (routeFollowing e h userId page limit s, s)"
| "handle e (GET_check h userId) s = (routeCheck e h userId s, s)"
| "handle e (GET_stats h userId) s = (routeStats e h userId s, s)"

section \<open>Invariants of the follow edges\<close>

text \<open>No active edge joins an account to itself.\<close>

definition noSelfFollow :: "follow list \<Rightarrow> bool" where
  "noSelfFollow fs \<longleftrightarrow> list_all (\<lambda>f. f_isDeleted f \<or> f_follower f \<noteq> f_following f) fs"

text \<open>The active edges have pairwise different (follower, following) pairs.\<close>

definition uniqueActive :: "follow list \<Rightarrow> bool" where
  "uniqueActive fs \<longleftrightarrow>
     distinct (map (\<lambda>f. (f_follower f, f_following f)) (filter (\<lambda>f. \<not> f_isDeleted f) fs))"

section \<open>Example data\<close>

text \<open>
  A token verifier with one token for each seeded role, one for a role outside the
  enumeration, two whose id or role ends in a line feed, and an expired one.
\<close>

definition sampleJwt :: jwt_verify where
  "sampleJwt token =
     (if token = ''t-admin'' then Inr \<lparr>c_id = ''u1'', c_role = ''admin'', c_name = ''John Doe''\<rparr>
      else if token = ''t-user'' then Inr \<lparr>c_id = ''u2'', c_role = ''user'', c_name = ''Jane Doe''\<rparr>
      else if token = ''t-guest'' then Inr \<lparr>c_id = ''u9'', c_role = ''guest'', c_name = ''Guest''\<rparr>
      else if token = ''t-badid''
        then Inr \<lparr>c_id = ''u1'' @ [CHR 0x0A], c_role = ''admin'', c_name = ''John Doe''\<rparr>
      else if token = ''t-badrole''
        then Inr \<lparr>c_id = ''u9'', c_role = ''guest'' @ [CHR 0x0A], c_name = ''Guest''\<rparr>
      else if token = ''t-old'' then Inl TokenExpiredError
      else Inl JsonWebTokenError)"

definition sampleStore :: store where
  "sampleStore =
     \<lparr>users =
        [\<lparr>u_id = ''u1'', u_name = ''John Doe'', u_email = ''john.doe@example.com'',
          u_role = ''admin'', u_isDeleted = False\<rparr>,
         \<lparr>u_id = ''u2'', u_name = ''Jane Doe'', u_email = ''jane.doe@example.com'',
          u_role = ''user'', u_isDeleted = False\<rparr>,
         \<lparr>u_id = ''u3'', u_name = ''Jim Doe'', u_email = ''jim.doe@example.com'',
          u_role = ''user'', u_isDeleted = False\<rparr>],
      posts =
        [\<lparr>p_id = ''p1'', p_author = ''u2'', p_content = ''Debugging is fun!'',
          p_created = 1000, p_isDeleted = False, p_updatedAt = 1000\<rparr>,
         \<lparr>p_id = ''p2'', p_author = ''u3'', p_content = ''Writing unit tests.'',
          p_created = 2000, p_isDeleted = True, p_updatedAt = 2500\<rparr>,
         \<lparr>p_id = ''p3'', p_author = ''u2'', p_content = ''Documenting the API.'',
          p_created = 3000, p_isDeleted = False, p_updatedAt = 3000\<rparr>],
      follows =
        [\<lparr>f_id = ''f1'', f_follower = ''u1'', f_following = ''u2'', f_created = 100,
          f_isDeleted = False, f_updatedAt = None\<rparr>,
         \<lparr>f_id = ''f2'', f_follower = ''u1'', f_following = ''u3'', f_created = 200,
          f_isDeleted = False, f_updatedAt = None\<rparr>,
         \<lparr>f_id = ''f3'', f_follower = ''u2'', f_following = ''u1'', f_created = 300,
          f_isDeleted = True, f_updatedAt = Some 400\<rparr>]\<rparr>"

definition sampleEnv :: env where
  "sampleEnv = \<lparr>jwt = sampleJwt, followQuerySchema = Some\<rparr>"

definition driftStore :: store where
  "driftStore =
     \<lparr>users =
        [\<lparr>u_id = ''u1'', u_name = ''John Doe'', u_email = ''john.doe@example.com'',
          u_role = ''admin'', u_isDeleted = False\<rparr>,
         \<lparr>u_id = ''u2'', u_name = ''Jane Doe'', u_email = ''jane.doe@example.com'',
          u_role = ''user'', u_isDeleted = False\<rparr>],
      posts = [],
      follows =
        [\<lparr>f_id = ''f1'', f_follower = ''u2'', f_following = ''u1'', f_created = 100,
          f_isDeleted = False, f_updatedAt = None\<rparr>,
         \<lparr>f_id = ''f2'', f_follower = ''u9'', f_following = ''u1'', f_created = 200,
          f_isDeleted = False, f_updatedAt = None\<rparr>,
         \<lparr>f_id = ''f3'', f_follower = ''u1'', f_following = ''u9'', f_created = 300,
          f_isDeleted = False, f_updatedAt = None\<rparr>]\<rparr>"

definition zeroPageQuery :: posts_query where
  "zeroPageQuery = \<lparr>q_page = Some ''0'', q_limit = None, q_author = Some ''u2'', q_sortOrder = None\<rparr>"

text \<open>
  A database in the README's schema: \<open>u1\<close> follows \<open>u2\<close> and \<open>u3\<close>, the one edge
  of \<open>u2\<close> is soft-deleted, and so is post \<open>p2\<close>.
\<close>

definition sampleDb :: database where
  "sampleDb =
     \<lparr>db_users =
        [\<lparr>ud_id = ''u1'', ud_name = ''Alice''\<rparr>,
         \<lparr>ud_id = ''u2'', ud_name = ''Bob''\<rparr>,
         \<lparr>ud_id = ''u3'', ud_name = ''Charlie''\<rparr>],
      db_follows =
        [\<lparr>fd_follower = ''u1'', fd_following = ''u2'', fd_isDeleted = False\<rparr>,
         \<lparr>fd_follower = ''u1'', fd_following = ''u3'', fd_isDeleted = False\<rparr>,
         \<lparr>fd_follower = ''u2'', fd_following = ''u1'', fd_isDeleted = True\<rparr>],
      db_posts =
        [\<lparr>pd_id = ''p1'', pd_author = ''u2'', pd_content = ''Hello!'',
          pd_created = 1000, pd_isDeleted = False\<rparr>,
         \<lparr>pd_id = ''p2'', pd_author = ''u3'', pd_content = ''Great day!'',
          pd_created = 2000, pd_isDeleted = True\<rparr>,
         \<lparr>pd_id = ''p3'', pd_author = ''u2'', pd_content = ''Hey Bob'',
          pd_created = 3000, pd_isDeleted = False\<rparr>,
         \<lparr>pd_id = ''p4'', pd_author = ''u1'', pd_content = ''Working on new features'',
          pd_created = 4000, pd_isDeleted = False\<rparr>]\<rparr>"




definition defaultQuery :: posts_query where
  "defaultQuery = \<lparr>q_page = None, q_limit = None, q_author = None, q_sortOrder = None\<rparr>"

definition paddedContent :: string where
  "paddedContent = replicate 1000 (CHR ''a'') @ '' ''"

definition sampleUser :: principal where
  "sampleUser = \<lparr>pr_id = ''u2'', pr_role = ''user'', pr_name = ''Jane Doe''\<rparr>"

definition sampleAdmin :: principal where
  "sampleAdmin = \<lparr>pr_id = ''u1'', pr_role = ''admin'', pr_name = ''John Doe''\<rparr>"

section \<open>Properties of the helpers\<close>

lemma findIndex_None: "findIndex P xs = None \<longleftrightarrow> (\<forall>x\<in>set xs. \<not> P x)"
  by (induction xs) auto

lemma findIndex_Some:
  "findIndex P xs = Some i \<Longrightarrow> i < length xs \<and> P (xs ! i) \<and> (\<forall>j<i. \<not> P (xs ! j))"
proof (induction xs arbitrary: i)
  case Nil
  then show ?case by simp
next
  case (Cons x xs)
  show ?case
  proof (cases "P x")
    case True
    with Cons.prems show ?thesis by simp
  next
    case False
    with Cons.prems obtain k where k: "findIndex P xs = Some k" "i = Suc k"
      by auto
    from Cons.IH[OF k(1)] False k(2) show ?thesis
      by (auto simp: less_Suc_eq_0_disj)
  qed
qed




lemma feed_set_short:
  assumes "length (stageProject (stageLookupAuthor (db_users db)
              (stageLookupPosts (db_posts db) (stageMatch u (db_follows db))))) \<le> 10"
  shows "set (executeAggregation tie db u)
     = set (stageProject (stageLookupAuthor (db_users db)
              (stageLookupPosts (db_posts db) (stageMatch u (db_follows db)))))"
  using assms
  unfolding executeAggregation_def getFollowingsPosts_def stageLimit_def stageSort_def
  by simp







lemma set_pageSlice: "set (pageSlice a b xs) \<subseteq> set xs"
proof (cases a)
  case None
  then show ?thesis by simp
next
  case (Some pageNum)
  show ?thesis
  proof (cases b)
    case None
    with Some show ?thesis by simp
  next
    case (Some limitNum)
    have "set (take n (drop m xs)) \<subseteq> set xs" for n m
      using set_take_subset set_drop_subset by fastforce
    with \<open>a = Some pageNum\<close> Some show ?thesis
      by (simp add: Let_def)
  qed
qed

lemma in_pageSlice: "x \<in> set (pageSlice a b xs) \<Longrightarrow> x \<in> set xs"
  using set_pageSlice by fastforce

lemma getAllPosts_rows:
  assumes "getAllPosts q ps = Inr page" and "v \<in> set (pp_posts page)"
  shows "\<exists>p\<in>set ps. \<not> p_isDeleted p \<and> viewPost p = v"
proof -
  from assms(1) obtain a b sel where page: "pp_posts page = map viewPost (pageSlice a b sel)"
    and sel: "set sel \<subseteq> {p \<in> set ps. \<not> p_isDeleted p}"
    unfolding getAllPosts_def Let_def
    by (fastforce split: if_splits option.splits)
  from assms(2) page obtain x where "x \<in> set (pageSlice a b sel)" "v = viewPost x"
    by auto
  with sel in_pageSlice[of x a b sel] show ?thesis
    by blast
qed

lemma getAllPosts_live: "getAllPosts q (filter (\<lambda>p. \<not> p_isDeleted p) ps) = getAllPosts q ps"
proof -
  have "filter (\<lambda>post. \<not> p_isDeleted post) (filter (\<lambda>p. \<not> p_isDeleted p) ps)
      = filter (\<lambda>post. \<not> p_isDeleted post) ps"
    by simp
  then show ?thesis
    unfolding getAllPosts_def by (simp only:)
qed

lemma getPostById_row:
  "getPostById ident ps = Inr p \<Longrightarrow> p \<in> set ps \<and> \<not> p_isDeleted p \<and> p_id p = ident"
  by (auto simp: getPostById_def find_Some_iff split: option.splits)

lemma getFollowStats_live:
  "getFollowStats userId us (filter (\<lambda>f. \<not> f_isDeleted f) fs) = getFollowStats userId us fs"
proof -
  have "filter (\<lambda>f. P f \<and> \<not> f_isDeleted f) (filter (\<lambda>f. \<not> f_isDeleted f) fs)
      = filter (\<lambda>f. P f \<and> \<not> f_isDeleted f) fs" for P
    by (induction fs) auto
  then show ?thesis
    unfolding getFollowStats_def by (simp only:)
qed

lemma deletePost_keeps_rows: "map p_id (snd (deletePost now ident user ps)) = map p_id ps"
proof (cases "findIndex (\<lambda>post. p_id post = ident \<and> \<not> p_isDeleted post) ps")
  case None
  then show ?thesis by (simp add: deletePost_def)
next
  case (Some i)
  from findIndex_Some[OF Some] have "i < length ps" by simp
  then have "(map p_id ps)[i := p_id (ps ! i)] = map p_id ps"
    by (simp add: list_update_same_conv)
  with Some show ?thesis
    by (simp add: deletePost_def Let_def map_update)
qed

lemma unfollowUser_keeps_rows: "map f_id (snd (unfollowUser now userId cur us fs)) = map f_id fs"
proof (cases "findIndex (activeEdge (pr_id cur) userId) fs")
  case None
  then show ?thesis by (simp add: unfollowUser_def split: option.splits)
next
  case (Some i)
  from findIndex_Some[OF Some] have "i < length fs" by simp
  then have "(map f_id fs)[i := f_id (fs ! i)] = map f_id fs"
    by (simp add: list_update_same_conv)
  with Some show ?thesis
    by (simp add: unfollowUser_def map_update split: option.splits)
qed

lemma idChar_digit: "n < 10 \<Longrightarrow> idChar (''0123456789'' ! n)"
proof -
  have "list_all idChar ''0123456789''" by (simp add: idChar_def)
  moreover assume "n < 10"
  ultimately show ?thesis by (simp add: list_all_length)
qed

lemma digits_idChars: "list_all idChar (digits n)"
proof (induction n rule: digits.induct)
  case (1 n)
  show ?case
  proof (cases "n < 10")
    case True
    then show ?thesis
      by (subst digits.simps) (simp add: idChar_digit)
  next
    case False
    with 1 have "list_all idChar (digits (n div 10))" by simp
    moreover have "idChar (''0123456789'' ! (n mod 10))"
      by (rule idChar_digit) simp
    ultimately show ?thesis using False
      by (subst digits.simps) simp
  qed
qed

lemma createPost_ids_valid:
  assumes "list_all (\<lambda>p. postIdSchema (p_id p)) ps"
  shows "list_all (\<lambda>p. postIdSchema (p_id p)) (snd (createPost tId tCreated tUpdated content user ps))"
proof -
  have "idChar CHR ''p''" by (simp add: idChar_def)
  with digits_idChars[of tId] have "postIdSchema (''p'' @ digits tId)"
    by (simp add: postIdSchema_def)
  with assms show ?thesis
    by (simp add: createPost_def Let_def)
qed

lemma sample_auth_user:
  "requireUserOrAdmin (jwt sampleEnv) (Some ''Bearer t-user'') = Inr sampleUser"
  by code_simp

lemma trim_padded:
  assumes "\<not> isWhiteSpace c" and "isWhiteSpace d"
  shows "trim (replicate (Suc n) c @ [d]) = replicate (Suc n) c"
proof -
  let ?r = "replicate (Suc n) c"
  have keep: "dropWhile isWhiteSpace (?r @ [d]) = ?r @ [d]"
    using assms(1) by simp
  have "rev (?r @ [d]) = d # rev ?r"
    by (simp only: rev_append rev.simps append.simps)
  then have turned: "rev (?r @ [d]) = d # ?r"
    by (simp only: rev_replicate)
  have "dropWhile isWhiteSpace (d # ?r) = dropWhile isWhiteSpace ?r"
    using assms(2) by simp
  also have "\<dots> = ?r"
    using assms(1) by simp
  finally have strip: "dropWhile isWhiteSpace (d # ?r) = ?r" .
  have "trim (?r @ [d]) = rev (dropWhile isWhiteSpace (rev (dropWhile isWhiteSpace (?r @ [d]))))"
    by (simp only: trim_def)
  also have "\<dots> = rev ?r"
    by (simp only: keep turned strip)
  also have "\<dots> = ?r"
    by (rule rev_replicate)
  finally show ?thesis .
qed

lemma distinct_filter_index:
  assumes "distinct (map g (filter P xs))"
    and "i < length xs" and "j < length xs"
    and "P (xs ! i)" and "P (xs ! j)" and "g (xs ! i) = g (xs ! j)"
  shows "i = j"
  using assms
proof (induction xs arbitrary: i j)
  case Nil
  then show ?case by simp
next
  case (Cons x xs)
  show ?case
  proof (cases i)
    case 0
    show ?thesis
    proof (cases j)
      case 0
      with \<open>i = 0\<close> show ?thesis by simp
    next
      case (Suc j')
      with Cons.prems 0 have "P x" "P (xs ! j')" "g x = g (xs ! j')" "j' < length xs"
        by simp_all
      then have "g x \<in> g ` {y \<in> set xs. P y}"
        by (metis (mono_tags, lifting) image_eqI mem_Collect_eq nth_mem)
      with Cons.prems(1) \<open>P x\<close> show ?thesis by simp
    qed
  next
    case (Suc i')
    show ?thesis
    proof (cases j)
      case 0
      with Cons.prems Suc have "P x" "P (xs ! i')" "g x = g (xs ! i')" "i' < length xs"
        by simp_all
      then have "g x \<in> g ` {y \<in> set xs. P y}"
        by (metis (mono_tags, lifting) image_eqI mem_Collect_eq nth_mem)
      with Cons.prems(1) \<open>P x\<close> show ?thesis by simp
    next
      case (Suc j')
      from Cons.prems(1) have "distinct (map g (filter P xs))"
        by (simp split: if_splits)
      from Cons.IH[OF this, of i' j'] Cons.prems \<open>i = Suc i'\<close> Suc show ?thesis
        by simp
    qed
  qed
qed

lemma distinct_filter_update:
  assumes "distinct (map g (filter P xs))" and "\<not> P y"
  shows "distinct (map g (filter P (xs[i := y])))"
  using assms
proof (induction xs arbitrary: i)
  case Nil
  then show ?case by simp
next
  case (Cons x xs)
  show ?case
  proof (cases i)
    case 0
    with Cons.prems show ?thesis by (simp split: if_splits)
  next
    case (Suc i')
    from Cons.prems(1) have d: "distinct (map g (filter P xs))"
      by (simp split: if_splits)
    have sub: "{z \<in> set (xs[i' := y]). P z} \<subseteq> {z \<in> set xs. P z}"
      using Cons.prems(2) set_update_subset_insert[of xs i' y] by auto
    from Cons.IH[OF d Cons.prems(2), of i'] Cons.prems(1) sub Suc show ?thesis
      by (auto split: if_splits)
  qed
qed

lemma uniqueActive_index:
  assumes "uniqueActive fs" and "i < length fs" and "j < length fs"
    and "activeEdge a b (fs ! i)" and "activeEdge a b (fs ! j)"
  shows "i = j"
proof -
  from assms(4,5) have "\<not> f_isDeleted (fs ! i)" "\<not> f_isDeleted (fs ! j)"
    "(f_follower (fs ! i), f_following (fs ! i)) = (f_follower (fs ! j), f_following (fs ! j))"
    by (simp_all add: activeEdge_def)
  with assms(1-3) distinct_filter_index[of "\<lambda>f. (f_follower f, f_following f)"
      "\<lambda>f. \<not> f_isDeleted f" fs i j]
  show ?thesis by (simp add: uniqueActive_def)
qed

lemma uniqueActive_soft_delete:
  "uniqueActive fs \<Longrightarrow> uniqueActive (fs[i := (fs ! i)\<lparr>f_isDeleted := True, f_updatedAt := t\<rparr>])"
  unfolding uniqueActive_def by (rule distinct_filter_update) simp_all

lemma noSelfFollow_soft_delete:
  assumes "noSelfFollow fs"
  shows "noSelfFollow (fs[i := (fs ! i)\<lparr>f_isDeleted := True, f_updatedAt := t\<rparr>])"
proof -
  have "set (fs[i := (fs ! i)\<lparr>f_isDeleted := True, f_updatedAt := t\<rparr>])
      \<subseteq> insert ((fs ! i)\<lparr>f_isDeleted := True, f_updatedAt := t\<rparr>) (set fs)"
    by (rule set_update_subset_insert)
  with assms show ?thesis
    by (auto simp: noSelfFollow_def list_all_iff)
qed

lemma unfollowUser_Inr:
  assumes "unfollowUser now b cur us fs = (Inr r, fs')"
  shows "pr_id cur \<noteq> b \<and> find (activeUser b) us \<noteq> None
       \<and> (\<exists>i. findIndex (activeEdge (pr_id cur) b) fs = Some i
              \<and> fs' = fs[i := (fs ! i)\<lparr>f_isDeleted := True, f_updatedAt := Some now\<rparr>])"
  using assms by (auto simp: unfollowUser_def split: if_splits option.splits)

lemma followUser_Inr:
  assumes "followUser now b cur us fs = (Inr r, fs')"
  shows "pr_id cur \<noteq> b \<and> (\<forall>f\<in>set fs. \<not> activeEdge (pr_id cur) b f)
       \<and> fs' = fs @ [\<lparr>f_id = ''f'' @ digits (length fs + 1), f_follower = pr_id cur,
                        f_following = b, f_created = now, f_isDeleted = False,
                        f_updatedAt = None\<rparr>]"
  using assms
  by (auto simp: followUser_def Let_def find_None_iff split: if_splits option.splits)

lemma followUser_Inl: "followUser now b cur us fs = (Inl err, fs') \<Longrightarrow> fs' = fs"
  by (auto simp: followUser_def Let_def split: if_splits option.splits)

lemma unfollowUser_Inl: "unfollowUser now b cur us fs = (Inl err, fs') \<Longrightarrow> fs' = fs"
  by (auto simp: unfollowUser_def split: if_splits option.splits)

lemma deletePost_Inl: "deletePost now ident user ps = (Inl err, ps') \<Longrightarrow> ps' = ps"
  by (auto simp: deletePost_def Let_def split: if_splits option.splits)

lemma followUser_invariants:
  assumes "noSelfFollow fs" and "uniqueActive fs"
  shows "noSelfFollow (snd (followUser now b cur us fs))
       \<and> uniqueActive (snd (followUser now b cur us fs))"
proof (cases "followUser now b cur us fs")
  case (Pair res fs')
  show ?thesis
  proof (cases res)
    case (Inl err)
    with Pair followUser_Inl[of now b cur us fs err fs'] assms show ?thesis by simp
  next
    case (Inr r)
    with Pair followUser_Inr[of now b cur us fs r fs']
    have ne: "pr_id cur \<noteq> b" and free: "\<forall>f\<in>set fs. \<not> activeEdge (pr_id cur) b f"
      and fs': "fs' = fs @ [\<lparr>f_id = ''f'' @ digits (length fs + 1), f_follower = pr_id cur,
                        f_following = b, f_created = now, f_isDeleted = False,
                        f_updatedAt = None\<rparr>]"
      by simp_all
    from free have "(pr_id cur, b) \<notin> (\<lambda>f. (f_follower f, f_following f)) ` {f \<in> set fs. \<not> f_isDeleted f}"
      by (auto simp: activeEdge_def)
    with assms(2) have "uniqueActive fs'"
      by (simp add: uniqueActive_def fs')
    moreover from assms(1) ne have "noSelfFollow fs'"
      by (simp add: noSelfFollow_def fs')
    ultimately show ?thesis using Pair by simp
  qed
qed

lemma unfollowUser_invariants:
  assumes "noSelfFollow fs" and "uniqueActive fs"
  shows "noSelfFollow (snd (unfollowUser now b cur us fs))
       \<and> uniqueActive (snd (unfollowUser now b cur us fs))"
proof (cases "unfollowUser now b cur us fs")
  case (Pair res fs')
  show ?thesis
  proof (cases res)
    case (Inl err)
    with Pair unfollowUser_Inl[of now b cur us fs err fs'] assms show ?thesis by simp
  next
    case (Inr r)
    with Pair unfollowUser_Inr[of now b cur us fs r fs'] obtain i
      where "fs' = fs[i := (fs ! i)\<lparr>f_isDeleted := True, f_updatedAt := Some now\<rparr>]"
      by auto
    with assms noSelfFollow_soft_delete[of fs i "Some now"]
      uniqueActive_soft_delete[of fs i "Some now"] Pair
    show ?thesis by simp
  qed
qed

lemma routeFollow_cases:
  "(\<exists>err. routeFollow e h b now s = (Inl err, s))
   \<or> (\<exists>cur r fs. followUser now b cur (users s) (follows s) = (r, fs)
          \<and> routeFollow e h b now s = (map_sum id Followed r, s\<lparr>follows := fs\<rparr>))"
proof (cases "requireAuth (jwt e) h")
  case (Inl err)
  then show ?thesis by (simp add: routeFollow_def)
next
  case (Inr cur)
  show ?thesis
  proof (cases "userIdSchema b")
    case False
    with Inr show ?thesis by (simp add: routeFollow_def)
  next
    case True
    obtain r fs where "followUser now b cur (users s) (follows s) = (r, fs)"
      by (cases "followUser now b cur (users s) (follows s)")
    with Inr True show ?thesis
      by (auto simp: routeFollow_def)
  qed
qed

lemma routeUnfollow_cases:
  "(\<exists>err. routeUnfollow e h b now s = (Inl err, s))
   \<or> (\<exists>cur r fs. unfollowUser now b cur (users s) (follows s) = (r, fs)
          \<and> routeUnfollow e h b now s = (map_sum id Unfollowed r, s\<lparr>follows := fs\<rparr>))"
proof (cases "requireAuth (jwt e) h")
  case (Inl err)
  then show ?thesis by (simp add: routeUnfollow_def)
next
  case (Inr cur)
  show ?thesis
  proof (cases "userIdSchema b")
    case False
    with Inr show ?thesis by (simp add: routeUnfollow_def)
  next
    case True
    obtain r fs where "unfollowUser now b cur (users s) (follows s) = (r, fs)"
      by (cases "unfollowUser now b cur (users s) (follows s)")
    with Inr True show ?thesis
      by (auto simp: routeUnfollow_def)
  qed
qed

lemma routeDeletePost_cases:
  "(\<exists>err. routeDeletePost e h ident now s = (Inl err, s))
   \<or> (\<exists>user r ps. deletePost now ident user (posts s) = (r, ps)
          \<and> routeDeletePost e h ident now s = (map_sum id PostDeleted r, s\<lparr>posts := ps\<rparr>))"
proof (cases "requireAdmin (jwt e) h")
  case (Inl err)
  then show ?thesis by (simp add: routeDeletePost_def)
next
  case (Inr user)
  show ?thesis
  proof (cases "postIdSchema ident")
    case False
    with Inr show ?thesis by (simp add: routeDeletePost_def)
  next
    case True
    obtain r ps where "deletePost now ident user (posts s) = (r, ps)"
      by (cases "deletePost now ident user (posts s)")
    with Inr True show ?thesis
      by (auto simp: routeDeletePost_def)
  qed
qed

lemma routeFollow_follows:
  "follows (snd (routeFollow e h b now s)) = follows s
   \<or> (\<exists>cur. follows (snd (routeFollow e h b now s))
              = snd (followUser now b cur (users s) (follows s)))"
proof -
  from routeFollow_cases[of e h b now s] show ?thesis
  proof (elim disjE exE conjE)
    fix err
    assume "routeFollow e h b now s = (Inl err, s)"
    then show ?thesis by simp
  next
    fix cur r fs
    assume f: "followUser now b cur (users s) (follows s) = (r, fs)"
      and rt: "routeFollow e h b now s = (map_sum id Followed r, s\<lparr>follows := fs\<rparr>)"
    from rt have "follows (snd (routeFollow e h b now s)) = fs" by simp
    with f have "follows (snd (routeFollow e h b now s))
        = snd (followUser now b cur (users s) (follows s))"
      by simp
    then show ?thesis by blast
  qed
qed

lemma routeUnfollow_follows:
  "follows (snd (routeUnfollow e h b now s)) = follows s
   \<or> (\<exists>cur. follows (snd (routeUnfollow e h b now s))
              = snd (unfollowUser now b cur (users s) (follows s)))"
proof -
  from routeUnfollow_cases[of e h b now s] show ?thesis
  proof (elim disjE exE conjE)
    fix err
    assume "routeUnfollow e h b now s = (Inl err, s)"
    then show ?thesis by simp
  next
    fix cur r fs
    assume f: "unfollowUser now b cur (users s) (follows s) = (r, fs)"
      and rt: "routeUnfollow e h b now s = (map_sum id Unfollowed r, s\<lparr>follows := fs\<rparr>)"
    from rt have "follows (snd (routeUnfollow e h b now s)) = fs" by simp
    with f have "follows (snd (routeUnfollow e h b now s))
        = snd (unfollowUser now b cur (users s) (follows s))"
      by simp
    then show ?thesis by blast
  qed
qed

lemma routeCreatePost_follows:
  "follows (snd (routeCreatePost e h content tId tCreated tUpdated s)) = follows s"
  by (auto simp: routeCreatePost_def split: sum.splits prod.splits)

lemma routeDeletePost_follows:
  "follows (snd (routeDeletePost e h ident now s)) = follows s"
  using routeDeletePost_cases[of e h ident now s] by auto

lemma routeFollow_failure:
  assumes "fst (routeFollow e h b now s) = Inl err"
  shows "snd (routeFollow e h b now s) = s"
proof -
  from routeFollow_cases[of e h b now s] show ?thesis
  proof
    assume "\<exists>err. routeFollow e h b now s = (Inl err, s)"
    then show ?thesis by auto
  next
    assume "\<exists>cur r fs. followUser now b cur (users s) (follows s) = (r, fs)
          \<and> routeFollow e h b now s = (map_sum id Followed r, s\<lparr>follows := fs\<rparr>)"
    then obtain cur r fs where f: "followUser now b cur (users s) (follows s) = (r, fs)"
      and rt: "routeFollow e h b now s = (map_sum id Followed r, s\<lparr>follows := fs\<rparr>)"
      by blast
    from assms rt obtain err' where "r = Inl err'"
      by (cases r) auto
    with f followUser_Inl have "fs = follows s" by blast
    with rt show ?thesis by simp
  qed
qed

lemma routeUnfollow_failure:
  assumes "fst (routeUnfollow e h b now s) = Inl err"
  shows "snd (routeUnfollow e h b now s) = s"
proof -
  from routeUnfollow_cases[of e h b now s] show ?thesis
  proof
    assume "\<exists>err. routeUnfollow e h b now s = (Inl err, s)"
    then show ?thesis by auto
  next
    assume "\<exists>cur r fs. unfollowUser now b cur (users s) (follows s) = (r, fs)
          \<and> routeUnfollow e h b now s = (map_sum id Unfollowed r, s\<lparr>follows := fs\<rparr>)"
    then obtain cur r fs where f: "unfollowUser now b cur (users s) (follows s) = (r, fs)"
      and rt: "routeUnfollow e h b now s = (map_sum id Unfollowed r, s\<lparr>follows := fs\<rparr>)"
      by blast
    from assms rt obtain err' where "r = Inl err'"
      by (cases r) auto
    with f unfollowUser_Inl have "fs = follows s" by blast
    with rt show ?thesis by simp
  qed
qed

lemma routeDeletePost_failure:
  assumes "fst (routeDeletePost e h ident now s) = Inl err"
  shows "snd (routeDeletePost e h ident now s) = s"
proof -
  from routeDeletePost_cases[of e h ident now s] show ?thesis
  proof
    assume "\<exists>err. routeDeletePost e h ident now s = (Inl err, s)"
    then show ?thesis by auto
  next
    assume "\<exists>user r ps. deletePost now ident user (posts s) = (r, ps)
          \<and> routeDeletePost e h ident now s = (map_sum id PostDeleted r, s\<lparr>posts := ps\<rparr>)"
    then obtain user r ps where f: "deletePost now ident user (posts s) = (r, ps)"
      and rt: "routeDeletePost e h ident now s = (map_sum id PostDeleted r, s\<lparr>posts := ps\<rparr>)"
      by blast
    from assms rt obtain err' where "r = Inl err'"
      by (cases r) auto
    with f deletePost_Inl have "ps = posts s" by blast
    with rt show ?thesis by simp
  qed
qed

lemma routeCreatePost_failure:
  "fst (routeCreatePost e h content tId tCreated tUpdated s) = Inl err
   \<Longrightarrow> snd (routeCreatePost e h content tId tCreated tUpdated s) = s"
  by (auto simp: routeCreatePost_def split: sum.splits prod.splits if_splits)

lemma sample_requireAuth:
  "requireAuth (jwt sampleEnv) (Some ''Bearer t-user'') = Inr sampleUser"
  by code_simp

text \<open>
  The reads of the API leave out the soft-deleted rows of its stores, and a soft delete
  keeps every row.
\<close>

lemma reads_skip_deleted:
  "(\<forall>page. getAllPosts q ps = Inr page \<longrightarrow>
       (\<forall>v\<in>set (pp_posts page). \<exists>p\<in>set ps. \<not> p_isDeleted p \<and> viewPost p = v))
   \<and> getAllPosts q (filter (\<lambda>p. \<not> p_isDeleted p) ps) = getAllPosts q ps
   \<and> (\<forall>p. getPostById ident ps = Inr p \<longrightarrow> p \<in> set ps \<and> \<not> p_isDeleted p \<and> p_id p = ident)
   \<and> getFollowStats userId us (filter (\<lambda>f. \<not> f_isDeleted f) fs) = getFollowStats userId us fs
   \<and> map p_id (snd (deletePost now ident user ps)) = map p_id ps
   \<and> map f_id (snd (unfollowUser now userId cur us fs)) = map f_id fs"
  using getAllPosts_rows[of q ps] getAllPosts_live[of q ps] getPostById_row[of ident ps]
    getFollowStats_live[of userId us fs] deletePost_keeps_rows[of now ident user ps]
    unfollowUser_keeps_rows[of now userId cur us fs]
  by blast

section \<open>The claims\<close>







text \<open>
  C2, as the code has it. The posts list answers 400 \<open>INVALID_PAGINATION\<close> whenever
  \<^verbatim>\<open>page\<close> or \<^verbatim>\<open>limit\<close> parses to a number below 1, whatever the stored posts
  and the other parameters are: the test comes before the posts are read. The followers
  and following controllers have no such test and never answer \<open>INVALID_PAGINATION\<close>.
\<close>

theorem posts_list_invalid_pagination:
  assumes "(\<exists>n. queryInt 1 (q_page q) = Some n \<and> n < 1)
         \<or> (\<exists>n. queryInt 10 (q_limit q) = Some n \<and> n < 1)"
  shows "getAllPosts q ps = Inl INVALID_PAGINATION
       \<and> statusCode INVALID_PAGINATION = 400
       \<and> getFollowers userId (q_page q) (q_limit q) us fs \<noteq> Inl INVALID_PAGINATION
       \<and> getFollowing userId (q_page q) (q_limit q) us fs \<noteq> Inl INVALID_PAGINATION"
proof -
  from assms have "lessThanOne (queryInt 1 (q_page q))
                 \<or> lessThanOne (min50 (queryInt 10 (q_limit q)))"
    by (auto simp: min50_def)
  then have "getAllPosts q ps = Inl INVALID_PAGINATION"
    by (simp add: getAllPosts_def Let_def)
  moreover have "getFollowers userId (q_page q) (q_limit q) us fs \<noteq> Inl INVALID_PAGINATION"
    by (simp add: getFollowers_def split: option.splits)
  moreover have "getFollowing userId (q_page q) (q_limit q) us fs \<noteq> Inl INVALID_PAGINATION"
    by (simp add: getFollowing_def split: option.splits)
  ultimately show ?thesis by simp
qed

theorem posts_list_invalid_pagination_witness:
  "queryInt 1 (q_page zeroPageQuery) = Some 0
   \<and> getAllPosts zeroPageQuery (posts sampleStore) = Inl INVALID_PAGINATION
   \<and> getFollowers ''u2'' (q_page zeroPageQuery) (q_limit zeroPageQuery)
        (users sampleStore) (follows sampleStore) \<noteq> Inl INVALID_PAGINATION"
proof -
  have a: "queryInt 1 (q_page zeroPageQuery) = Some 0"
    by code_simp
  then have "(\<exists>n. queryInt 1 (q_page zeroPageQuery) = Some n \<and> n < 1)
         \<or> (\<exists>n. queryInt 10 (q_limit zeroPageQuery) = Some n \<and> n < 1)"
    by simp
  from posts_list_invalid_pagination[OF this] a show ?thesis
    by simp
qed

text \<open>
  C2 as stated fails for the followers and following lists: with \<^verbatim>\<open>page=0\<close>, and
  with \<^verbatim>\<open>limit=0\<close>, the controllers answer 200 with an empty page.
\<close>

theorem followers_accept_page_zero:
  "parseInt ''0'' = Some 0
   \<and> getFollowers ''u2'' (Some ''0'') (Some ''10'') (users sampleStore) (follows sampleStore)
       = Inr \<lparr>eg_edges = [],
               eg_pagination = \<lparr>ep_page = Some 0, ep_limit = Some 10, ep_total = 1,
                                 ep_pages = Num 1\<rparr>\<rparr>
   \<and> getFollowing ''u1'' (Some ''1'') (Some ''0'') (users sampleStore) (follows sampleStore)
       = Inr \<lparr>eg_edges = [],
               eg_pagination = \<lparr>ep_page = Some 1, ep_limit = Some 0, ep_total = 2,
                                 ep_pages = Infinity\<rparr>\<rparr>"
  by code_simp

text \<open>
  C3. The followers and following queries are meant to leave out an active edge whose
  counterpart account has no user record. The code reads the properties of the missing
  account before its filter runs: with such an edge in the store both queries answer 500.
  The last conjunct reaches such a store through \<open>followUser\<close>, called by a principal
  whose id has no user record.
\<close>

theorem followers_unresolved_edge_fails:
  "getFollowers ''u1'' None None (users driftStore) (follows driftStore)
     = Inl GET_FOLLOWERS_INTERNAL_ERROR
   \<and> getFollowing ''u1'' None None (users driftStore) (follows driftStore)
     = Inl GET_FOLLOWING_INTERNAL_ERROR
   \<and> statusCode GET_FOLLOWERS_INTERNAL_ERROR = 500
   \<and> statusCode GET_FOLLOWING_INTERNAL_ERROR = 500
   \<and> getFollowers ''u1'' None None (users sampleStore)
        (snd (followUser 7000 ''u1'' \<lparr>pr_id = ''u9'', pr_role = ''user'', pr_name = ''Ghost''\<rparr>
               (users sampleStore) (follows sampleStore)))
     = Inl GET_FOLLOWERS_INTERNAL_ERROR"
  by code_simp

text \<open>
  C4. Every read leaves out the rows with \<open>isDeleted = true\<close>. The feed aggregation
  does not: its pipeline has no test of \<open>isDeleted\<close>, on posts or on follow edges.
  Whatever the engine's order of equal keys, the feed of \<open>u1\<close> holds the soft-deleted
  post \<open>p2\<close>, and the feed of \<open>u2\<close>, whose one edge is soft-deleted, holds the post
  of the account that edge points to.
\<close>

theorem feed_returns_deleted_post:
  "\<lparr>fe_id = ''p2'', fe_content = ''Great day!'', fe_created = 2000, fe_authorName = ''Charlie''\<rparr>
     \<in> set (executeAggregation tie sampleDb ''u1'')
   \<and> pd_id (db_posts sampleDb ! 1) = ''p2'' \<and> pd_isDeleted (db_posts sampleDb ! 1)
   \<and> \<lparr>fe_id = ''p4'', fe_content = ''Working on new features'', fe_created = 4000,
       fe_authorName = ''Alice''\<rparr>
     \<in> set (executeAggregation tie sampleDb ''u2'')
   \<and> fd_follower (db_follows sampleDb ! 2) = ''u2'' \<and> fd_isDeleted (db_follows sampleDb ! 2)
   \<and> map fd_follower (db_follows sampleDb) = [''u1'', ''u1'', ''u2'']"
proof -
  have p1: "stageProject (stageLookupAuthor (db_users sampleDb)
              (stageLookupPosts (db_posts sampleDb) (stageMatch ''u1'' (db_follows sampleDb))))
      = [\<lparr>fe_id = ''p1'', fe_content = ''Hello!'', fe_created = 1000, fe_authorName = ''Bob''\<rparr>,
         \<lparr>fe_id = ''p3'', fe_content = ''Hey Bob'', fe_created = 3000, fe_authorName = ''Bob''\<rparr>,
         \<lparr>fe_id = ''p2'', fe_content = ''Great day!'', fe_created = 2000,
          fe_authorName = ''Charlie''\<rparr>]"
    by code_simp
  have p2: "stageProject (stageLookupAuthor (db_users sampleDb)
              (stageLookupPosts (db_posts sampleDb) (stageMatch ''u2'' (db_follows sampleDb))))
      = [\<lparr>fe_id = ''p4'', fe_content = ''Working on new features'', fe_created = 4000,
          fe_authorName = ''Alice''\<rparr>]"
    by code_simp
  have a: "\<lparr>fe_id = ''p2'', fe_content = ''Great day!'', fe_created = 2000,
            fe_authorName = ''Charlie''\<rparr> \<in> set (executeAggregation tie sampleDb ''u1'')"
    using feed_set_short[of sampleDb "''u1''" tie] by (simp add: p1)
  have b: "\<lparr>fe_id = ''p4'', fe_content = ''Working on new features'', fe_created = 4000,
       fe_authorName = ''Alice''\<rparr> \<in> set (executeAggregation tie sampleDb ''u2'')"
    using feed_set_short[of sampleDb "''u2''" tie] by (simp add: p2)
  have c: "pd_id (db_posts sampleDb ! 1) = ''p2'' \<and> pd_isDeleted (db_posts sampleDb ! 1)
     \<and> fd_follower (db_follows sampleDb ! 2) = ''u2'' \<and> fd_isDeleted (db_follows sampleDb ! 2)
     \<and> map fd_follower (db_follows sampleDb) = [''u1'', ''u1'', ''u2'']"
    by (simp add: sampleDb_def)
  from a b c show ?thesis by blast
qed




text \<open>
  C6, as the code has it. The length rule is applied to the content as sent, before it
  is trimmed. For every content that is not white space only, creating a post succeeds
  if and only if the content as sent has between 1 and 1000 characters; on success the
  stored content is the trimmed string, the id is \<open>p\<close> followed by the clock's
  milliseconds, fresh when no stored post has that id, and \<open>created\<close> and
  \<open>updatedAt\<close> are the clock's readings. An empty
  content, and one of more than 1000 characters as sent, is answered 400
  \<open>VALIDATION_ERROR\<close> and nothing is stored.
\<close>

theorem create_post_validation:
  assumes "requireUserOrAdmin (jwt e) h = Inr user"
  shows "(trim raw \<noteq> [] \<longrightarrow>
            ((\<exists>v s'. routeCreatePost e h (Some raw) tId tCreated tUpdated s = (Inr v, s'))
               \<longleftrightarrow> 1 \<le> length raw \<and> length raw \<le> 1000))
       \<and> (trim raw \<noteq> [] \<and> 1 \<le> length raw \<and> length raw \<le> 1000 \<longrightarrow>
            routeCreatePost e h (Some raw) tId tCreated tUpdated s
              = (Inr (PostCreated \<lparr>pv_id = ''p'' @ digits tId, pv_author = pr_id user,
                                    pv_content = trim raw, pv_created = tCreated\<rparr>),
                 s\<lparr>posts := posts s @
                      [\<lparr>p_id = ''p'' @ digits tId, p_author = pr_id user,
                        p_content = trim raw, p_created = tCreated,
                        p_isDeleted = False, p_updatedAt = tUpdated\<rparr>]\<rparr>))
       \<and> (raw = [] \<or> 1000 < length raw \<longrightarrow>
            routeCreatePost e h (Some raw) tId tCreated tUpdated s = (Inl VALIDATION_ERROR, s)
            \<and> statusCode VALIDATION_ERROR = 400)"
proof -
  have ok: "routeCreatePost e h (Some raw) tId tCreated tUpdated s
              = (Inr (PostCreated \<lparr>pv_id = ''p'' @ digits tId, pv_author = pr_id user,
                                    pv_content = trim raw, pv_created = tCreated\<rparr>),
                 s\<lparr>posts := posts s @
                      [\<lparr>p_id = ''p'' @ digits tId, p_author = pr_id user,
                        p_content = trim raw, p_created = tCreated,
                        p_isDeleted = False, p_updatedAt = tUpdated\<rparr>]\<rparr>)"
    if "1 \<le> length raw" "length raw \<le> 1000"
    using that assms
    by (simp add: routeCreatePost_def createPostSchema_def createPost_def viewPost_def)
  have bad: "routeCreatePost e h (Some raw) tId tCreated tUpdated s = (Inl VALIDATION_ERROR, s)"
    if "\<not> (1 \<le> length raw \<and> length raw \<le> 1000)"
    using that assms
    by (auto simp: routeCreatePost_def createPostSchema_def)
  have "(\<exists>v s'. routeCreatePost e h (Some raw) tId tCreated tUpdated s = (Inr v, s'))
               \<longleftrightarrow> 1 \<le> length raw \<and> length raw \<le> 1000"
    using ok bad by (cases "1 \<le> length raw \<and> length raw \<le> 1000") auto
  moreover have "raw = [] \<or> 1000 < length raw \<longrightarrow>
            routeCreatePost e h (Some raw) tId tCreated tUpdated s = (Inl VALIDATION_ERROR, s)"
    using bad by auto
  ultimately show ?thesis using ok by simp
qed

theorem create_post_validation_witness:
  "trim ''  Hello world  '' = ''Hello world''
   \<and> length ''  Hello world  '' = 15
   \<and> routeCreatePost sampleEnv (Some ''Bearer t-user'') (Some ''  Hello world  '') 7000 7001 7002
        sampleStore
       = (Inr (PostCreated \<lparr>pv_id = ''p'' @ digits 7000, pv_author = pr_id sampleUser,
                             pv_content = trim ''  Hello world  '', pv_created = 7001\<rparr>),
          sampleStore\<lparr>posts := posts sampleStore @
             [\<lparr>p_id = ''p'' @ digits 7000, p_author = pr_id sampleUser,
               p_content = trim ''  Hello world  '',
               p_created = 7001, p_isDeleted = False, p_updatedAt = 7002\<rparr>]\<rparr>)
   \<and> digits 7000 = ''7000''
   \<and> routeCreatePost sampleEnv (Some ''Bearer t-user'') (Some []) 7000 7001 7002 sampleStore
       = (Inl VALIDATION_ERROR, sampleStore)"
proof -
  have a: "trim ''  Hello world  '' = ''Hello world''" by code_simp
  have b: "digits 7000 = ''7000''" by (simp add: digits.simps)
  have l: "length ''  Hello world  '' = 15" by simp
  have p: "trim ''  Hello world  '' \<noteq> [] \<and> 1 \<le> length ''  Hello world  ''
           \<and> length ''  Hello world  '' \<le> 1000"
    by (simp only: a l) simp
  note t = create_post_validation[OF sample_auth_user, where tId = 7000 and tCreated = 7001
      and tUpdated = 7002 and s = sampleStore]
  from t[where raw = "''  Hello world  ''"] p
  have c: "routeCreatePost sampleEnv (Some ''Bearer t-user'') (Some ''  Hello world  '') 7000 7001 7002
        sampleStore
       = (Inr (PostCreated \<lparr>pv_id = ''p'' @ digits 7000, pv_author = pr_id sampleUser,
                             pv_content = trim ''  Hello world  '', pv_created = 7001\<rparr>),
          sampleStore\<lparr>posts := posts sampleStore @
             [\<lparr>p_id = ''p'' @ digits 7000, p_author = pr_id sampleUser,
               p_content = trim ''  Hello world  '',
               p_created = 7001, p_isDeleted = False, p_updatedAt = 7002\<rparr>]\<rparr>)"
    by blast
  from t[where raw = "[]"]
  have d: "routeCreatePost sampleEnv (Some ''Bearer t-user'') (Some []) 7000 7001 7002 sampleStore
       = (Inl VALIDATION_ERROR, sampleStore)"
    by blast
  from a b c d l show ?thesis by blast
qed

text \<open>
  C6 as stated fails on the length rule, both ways, and on the fresh id. A content of
  three spaces passes the schema and a post with the empty content is stored; a content
  of 1000 letters and a trailing space, 1000 characters once trimmed, is refused; and two
  posts created in the same millisecond get the same id \<open>p7\<close>.
\<close>

theorem create_post_validates_untrimmed:
  "trim ''   '' = []
   \<and> fst (routeCreatePost sampleEnv (Some ''Bearer t-user'') (Some ''   '') 7 8 9 sampleStore)
       = Inr (PostCreated \<lparr>pv_id = ''p7'', pv_author = ''u2'', pv_content = [],
                            pv_created = 8\<rparr>)
   \<and> map p_content (posts (snd (routeCreatePost sampleEnv (Some ''Bearer t-user'') (Some ''   '')
                                  7 8 9 sampleStore)))
       = [''Debugging is fun!'', ''Writing unit tests.'', ''Documenting the API.'', []]
   \<and> length (trim paddedContent) = 1000
   \<and> routeCreatePost sampleEnv (Some ''Bearer t-user'') (Some paddedContent) 7 8 9 sampleStore
       = (Inl VALIDATION_ERROR, sampleStore)
   \<and> map p_id (posts (snd (routeCreatePost sampleEnv (Some ''Bearer t-user'') (Some ''second'')
        7 8 9
        (snd (routeCreatePost sampleEnv (Some ''Bearer t-admin'') (Some ''first'') 7 8 9
                sampleStore)))))
       = [''p1'', ''p2'', ''p3'', ''p7'', ''p7'']"
proof -
  have same: "map p_id (posts (snd (routeCreatePost sampleEnv (Some ''Bearer t-user'') (Some ''second'')
        7 8 9
        (snd (routeCreatePost sampleEnv (Some ''Bearer t-admin'') (Some ''first'') 7 8 9
                sampleStore)))))
       = [''p1'', ''p2'', ''p3'', ''p7'', ''p7'']"
    by code_simp
  have "trim ''   '' = []
   \<and> fst (routeCreatePost sampleEnv (Some ''Bearer t-user'') (Some ''   '') 7 8 9 sampleStore)
       = Inr (PostCreated \<lparr>pv_id = ''p7'', pv_author = ''u2'', pv_content = [],
                            pv_created = 8\<rparr>)
   \<and> map p_content (posts (snd (routeCreatePost sampleEnv (Some ''Bearer t-user'') (Some ''   '')
                                  7 8 9 sampleStore)))
       = [''Debugging is fun!'', ''Writing unit tests.'', ''Documenting the API.'', []]"
    by code_simp
  moreover have "trim paddedContent = replicate 1000 (CHR ''a'')"
    using trim_padded[of "CHR ''a''" "CHR '' ''" 999]
    by (simp add: paddedContent_def isWhiteSpace_def)
  then have "length (trim paddedContent) = 1000"
    by simp
  moreover have "\<not> createPostSchema (Some paddedContent)"
    by (simp add: createPostSchema_def paddedContent_def)
  then have "routeCreatePost sampleEnv (Some ''Bearer t-user'') (Some paddedContent) 7 8 9 sampleStore
       = (Inl VALIDATION_ERROR, sampleStore)"
    by (simp add: routeCreatePost_def sample_auth_user)
  ultimately show ?thesis using same by simp
qed

text \<open>
  C7. When \<open>unfollow(a, b)\<close> succeeds from a store in which the active edges are
  unique per pair, the active edge of the pair is soft-deleted: its \<open>isDeleted\<close>
  becomes true and its \<open>updatedAt\<close> the current time. The row stays in the store, the
  follow status of \<open>a\<close> towards \<open>b\<close> is false afterwards, and an immediately repeated
  unfollow fails with \<open>NOT_FOLLOWING\<close>.
\<close>

theorem unfollow_soft_deletes:
  assumes "uniqueActive fs" and "unfollowUser now b cur us fs = (Inr r, fs')"
  shows "(\<exists>i<length fs. activeEdge (pr_id cur) b (fs ! i)
            \<and> fs' = fs[i := (fs ! i)\<lparr>f_isDeleted := True, f_updatedAt := Some now\<rparr>])
       \<and> length fs' = length fs \<and> map f_id fs' = map f_id fs
       \<and> (\<exists>st. checkFollowStatus b cur us fs' = Inr st \<and> \<not> fs_isFollowing st)
       \<and> unfollowUser now' b cur us fs' = (Inl NOT_FOLLOWING, fs')"
proof -
  from unfollowUser_Inr[OF assms(2)] obtain i t
    where ne: "pr_id cur \<noteq> b" and t: "find (activeUser b) us = Some t"
      and i: "findIndex (activeEdge (pr_id cur) b) fs = Some i"
      and fs': "fs' = fs[i := (fs ! i)\<lparr>f_isDeleted := True, f_updatedAt := Some now\<rparr>]"
    by auto
  from findIndex_Some[OF i] have il: "i < length fs" and ia: "activeEdge (pr_id cur) b (fs ! i)"
    by simp_all
  have none: "\<not> activeEdge (pr_id cur) b x" if "x \<in> set fs'" for x
  proof -
    from that obtain j where j: "j < length fs" "x = fs' ! j"
      by (auto simp: in_set_conv_nth fs')
    show ?thesis
    proof (cases "j = i")
      case True
      with j il show ?thesis by (simp add: fs' activeEdge_def)
    next
      case False
      with j have "x = fs ! j" by (simp add: fs')
      with uniqueActive_index[OF assms(1) il j(1) ia] False show ?thesis by auto
    qed
  qed
  then have noidx: "findIndex (activeEdge (pr_id cur) b) fs' = None"
    by (simp add: findIndex_None)
  from none have noex: "\<not> list_ex (activeEdge (pr_id cur) b) fs'"
    by (simp add: list_ex_iff)
  have ids: "map f_id fs' = map f_id fs"
    using unfollowUser_keeps_rows[of now b cur us fs] assms(2) by simp
  from t noex have "\<exists>st. checkFollowStatus b cur us fs' = Inr st \<and> \<not> fs_isFollowing st"
    by (simp add: checkFollowStatus_def)
  moreover from ne t noidx have "unfollowUser now' b cur us fs' = (Inl NOT_FOLLOWING, fs')"
    by (simp add: unfollowUser_def)
  moreover have "length fs' = length fs" by (simp add: fs')
  ultimately show ?thesis using il ia fs' ids by blast
qed

theorem unfollow_soft_deletes_witness:
  "uniqueActive (follows sampleStore)
   \<and> unfollowUser 7000 ''u3'' sampleAdmin (users sampleStore) (follows sampleStore)
       = (Inr \<lparr>uf_id = ''f2'', uf_follower = ''u1'', uf_following = ''u3''\<rparr>,
          (follows sampleStore)[1 := (follows sampleStore ! 1)\<lparr>f_isDeleted := True,
                                                                f_updatedAt := Some 7000\<rparr>])
   \<and> unfollowUser 8000 ''u3'' sampleAdmin (users sampleStore)
        ((follows sampleStore)[1 := (follows sampleStore ! 1)\<lparr>f_isDeleted := True,
                                                               f_updatedAt := Some 7000\<rparr>])
       = (Inl NOT_FOLLOWING,
          (follows sampleStore)[1 := (follows sampleStore ! 1)\<lparr>f_isDeleted := True,
                                                                f_updatedAt := Some 7000\<rparr>])"
proof -
  have u: "uniqueActive (follows sampleStore)"
    by code_simp
  have e: "unfollowUser 7000 ''u3'' sampleAdmin (users sampleStore) (follows sampleStore)
       = (Inr \<lparr>uf_id = ''f2'', uf_follower = ''u1'', uf_following = ''u3''\<rparr>,
          (follows sampleStore)[1 := (follows sampleStore ! 1)\<lparr>f_isDeleted := True,
                                                                f_updatedAt := Some 7000\<rparr>])"
    by code_simp
  from unfollow_soft_deletes[OF u e, where now' = 8000] u e show ?thesis
    by blast
qed

text \<open>
  C8. From every state in which no active follow edge joins an account to itself and
  each (follower, following) pair has at most one active edge, every request, follow,
  unfollow and the reads among them, leads to a state with both properties.
\<close>

theorem handle_preserves_edge_invariants:
  assumes "noSelfFollow (follows s)" and "uniqueActive (follows s)"
  shows "noSelfFollow (follows (snd (handle e rq s)))
       \<and> uniqueActive (follows (snd (handle e rq s)))"
proof (cases rq)
  case (POST_posts h content tId tCreated tUpdated)
  with assms show ?thesis by (simp add: routeCreatePost_follows)
next
  case (DELETE_posts_id h ident now)
  with assms show ?thesis by (simp add: routeDeletePost_follows)
next
  case (POST_follows h b now)
  with assms routeFollow_follows[of e h b now s]
    followUser_invariants[OF assms, of now b _ "users s"]
  show ?thesis by auto
next
  case (DELETE_follows h b now)
  with assms routeUnfollow_follows[of e h b now s]
    unfollowUser_invariants[OF assms, of now b _ "users s"]
  show ?thesis by auto
qed (use assms in simp_all)

theorem handle_preserves_edge_invariants_witness:
  "noSelfFollow (follows sampleStore) \<and> uniqueActive (follows sampleStore)
   \<and> noSelfFollow (follows (snd (handle sampleEnv (POST_follows (Some ''Bearer t-user'') ''u3'' 7000)
                                    sampleStore)))
   \<and> uniqueActive (follows (snd (handle sampleEnv (POST_follows (Some ''Bearer t-user'') ''u3'' 7000)
                                    sampleStore)))
   \<and> map f_id (follows (snd (handle sampleEnv (POST_follows (Some ''Bearer t-user'') ''u3'' 7000)
                                 sampleStore)))
       = [''f1'', ''f2'', ''f3'', ''f4'']"
proof -
  have n: "noSelfFollow (follows sampleStore)" by code_simp
  have u: "uniqueActive (follows sampleStore)" by code_simp
  have m: "map f_id (follows (snd (handle sampleEnv (POST_follows (Some ''Bearer t-user'') ''u3'' 7000)
                                 sampleStore)))
       = [''f1'', ''f2'', ''f3'', ''f4'']"
    by code_simp
  from handle_preserves_edge_invariants[OF n u, of sampleEnv
      "POST_follows (Some ''Bearer t-user'') ''u3'' 7000"] n u m
  show ?thesis by blast
qed

text \<open>
  C9. Whenever a request is answered with a failure the stores are as they were before
  it; in particular following oneself and unfollowing oneself fail with
  \<open>SELF_FOLLOW_ERROR\<close> and \<open>SELF_UNFOLLOW_ERROR\<close> and leave the edges unchanged.
\<close>

theorem failure_leaves_stores:
  "(\<forall>err. fst (handle e rq s) = Inl err \<longrightarrow> snd (handle e rq s) = s)
   \<and> (requireAuth (jwt e) h = Inr cur \<and> pr_id cur \<noteq> [] \<longrightarrow>
        handle e (POST_follows h (pr_id cur) now) s = (Inl SELF_FOLLOW_ERROR, s)
        \<and> handle e (DELETE_follows h (pr_id cur) now) s = (Inl SELF_UNFOLLOW_ERROR, s))"
proof -
  have "snd (handle e rq s) = s" if "fst (handle e rq s) = Inl err" for err
    using that routeFollow_failure routeUnfollow_failure routeDeletePost_failure
      routeCreatePost_failure
    by (cases rq) auto
  moreover have "handle e (POST_follows h (pr_id cur) now) s = (Inl SELF_FOLLOW_ERROR, s)
        \<and> handle e (DELETE_follows h (pr_id cur) now) s = (Inl SELF_UNFOLLOW_ERROR, s)"
    if "requireAuth (jwt e) h = Inr cur" "pr_id cur \<noteq> []"
    using that
    by (simp add: routeFollow_def routeUnfollow_def userIdSchema_def followUser_def
        unfollowUser_def)
  ultimately show ?thesis by blast
qed

theorem failure_leaves_stores_witness:
  "fst (handle sampleEnv (DELETE_posts_id (Some ''Bearer t-admin'') ''p2'' 7000) sampleStore)
     = Inl POST_NOT_FOUND
   \<and> snd (handle sampleEnv (DELETE_posts_id (Some ''Bearer t-admin'') ''p2'' 7000) sampleStore)
     = sampleStore
   \<and> pr_id sampleUser \<noteq> []
   \<and> handle sampleEnv (POST_follows (Some ''Bearer t-user'') (pr_id sampleUser) 7000) sampleStore
     = (Inl SELF_FOLLOW_ERROR, sampleStore)
   \<and> handle sampleEnv (DELETE_follows (Some ''Bearer t-user'') (pr_id sampleUser) 7000) sampleStore
     = (Inl SELF_UNFOLLOW_ERROR, sampleStore)"
proof -
  have a: "fst (handle sampleEnv (DELETE_posts_id (Some ''Bearer t-admin'') ''p2'' 7000) sampleStore)
     = Inl POST_NOT_FOUND"
    by code_simp
  have b: "pr_id sampleUser \<noteq> []"
    by (simp add: sampleUser_def)
  note t = failure_leaves_stores[where e = sampleEnv and s = sampleStore and now = 7000
      and h = "Some ''Bearer t-user''" and cur = sampleUser
      and rq = "DELETE_posts_id (Some ''Bearer t-admin'') ''p2'' 7000"]
  from t a b sample_requireAuth show ?thesis
    by blast
qed

end
